theory Spec2Isabelle
  imports Main "HOL-Library.Sublist"
begin

section \<open>The shell post-processor of \<^verbatim>\<open>src/shell/post-processor.go\<close>\<close>

text \<open>
  The file holds two generations of one design. The plugin's \<^verbatim>\<open>main\<close> registers
  \<^verbatim>\<open>shell.PostProcessor\<close>, the second one (lines 185 to 393), and that is the one embedded
  here. Go strings are byte strings: \<^typ>\<open>string\<close>, a list of 8-bit characters.
\<close>

subsection \<open>Characters and the functions of package strings that the code calls\<close>

definition squote :: char where
  "squote = CHR 0x27"

definition dquote :: char where
  "dquote = CHR 0x22"

definition newline :: char where
  "newline = CHR 0x0A"

definition equals :: char where
  "equals = CHR 0x3D"

text \<open>
  \<^verbatim>\<open>strings.SplitN(kv, "=", 2)\<close>: the text before the first \<^verbatim>\<open>=\<close> and the text after it,
  or the whole string alone when it holds no \<^verbatim>\<open>=\<close>.
\<close>

definition SplitN2 :: "string \<Rightarrow> string list" where
  "SplitN2 kv =
     (if equals \<in> set kv
      then [takeWhile (\<lambda>c. c \<noteq> equals) kv, tl (dropWhile (\<lambda>c. c \<noteq> equals) kv)]
      else [kv])"

text \<open>
  \<^verbatim>\<open>strings.Replace(v, "'", `'"'"'`, -1)\<close>: every single quote becomes the five characters
  quote, double quote, quote, double quote, quote.
\<close>

definition escaped_quote :: string where
  "escaped_quote = [squote, dquote, squote, dquote, squote]"

definition Replace_quotes :: "string \<Rightarrow> string" where
  "Replace_quotes v = concat (map (\<lambda>c. if c = squote then escaped_quote else [c]) v)"

text \<open>\<^verbatim>\<open>strings.Join([]string{path, art}, " ")\<close>.\<close>

definition Join2 :: "string \<Rightarrow> string \<Rightarrow> string" where
  "Join2 path art = path @ '' '' @ art"

text \<open>
  \<^verbatim>\<open>strings.TrimSpace\<close> removes leading and trailing white space as Unicode defines it. On
  the bytes of a string these are the encodings below: the six ASCII ones, U+0085, U+00A0,
  U+1680, U+2000 to U+200A, U+2028, U+2029, U+202F, U+205F and U+3000 in UTF-8. No encoding
  is a prefix of another, and a byte that starts no valid encoding is no white space.
\<close>

definition space_runes :: "string list" where
  "space_runes =
     [[CHR 0x09], [CHR 0x0A], [CHR 0x0B], [CHR 0x0C], [CHR 0x0D], [CHR 0x20],
      [CHR 0xC2, CHR 0x85], [CHR 0xC2, CHR 0xA0],
      [CHR 0xE1, CHR 0x9A, CHR 0x80],
      [CHR 0xE2, CHR 0x80, CHR 0x80], [CHR 0xE2, CHR 0x80, CHR 0x81],
      [CHR 0xE2, CHR 0x80, CHR 0x82], [CHR 0xE2, CHR 0x80, CHR 0x83],
      [CHR 0xE2, CHR 0x80, CHR 0x84], [CHR 0xE2, CHR 0x80, CHR 0x85],
      [CHR 0xE2, CHR 0x80, CHR 0x86], [CHR 0xE2, CHR 0x80, CHR 0x87],
      [CHR 0xE2, CHR 0x80, CHR 0x88], [CHR 0xE2, CHR 0x80, CHR 0x89],
      [CHR 0xE2, CHR 0x80, CHR 0x8A],
      [CHR 0xE2, CHR 0x80, CHR 0xA8], [CHR 0xE2, CHR 0x80, CHR 0xA9],
      [CHR 0xE2, CHR 0x80, CHR 0xAF], [CHR 0xE2, CHR 0x81, CHR 0x9F],
      [CHR 0xE3, CHR 0x80, CHR 0x80]]"

text \<open>The number of bytes of the white-space rune a string starts with, 0 when it starts with none.\<close>

definition space_width :: "string list \<Rightarrow> string \<Rightarrow> nat" where
  "space_width runes s =
     (case filter (\<lambda>r. take (length r) s = r) runes of [] \<Rightarrow> 0 | r # _ \<Rightarrow> length r)"

fun trim_front :: "string list \<Rightarrow> nat \<Rightarrow> string \<Rightarrow> string" where
  "trim_front runes 0 s = s"
| "trim_front runes (Suc n) s =
     (if space_width runes s = 0 then s
      else trim_front runes n (drop (space_width runes s) s))"

definition TrimLeftSpace :: "string \<Rightarrow> string" where
  "TrimLeftSpace s = trim_front space_runes (length s) s"

definition TrimRightSpace :: "string \<Rightarrow> string" where
  "TrimRightSpace s = rev (trim_front (map rev space_runes) (length s) (rev s))"

definition TrimSpace :: "string \<Rightarrow> string" where
  "TrimSpace s = TrimRightSpace (TrimLeftSpace s)"

subsection \<open>Configuration\<close>

text \<open>
  \<^verbatim>\<open>Config\<close> (lines 206 to 231). Of the embedded \<^verbatim>\<open>common.PackerConfig\<close> the code reads the
  build name and the builder type only. A Go slice is \<^verbatim>\<open>nil\<close> or a sequence: an option.
\<close>

record Config =
  PackerBuildName :: string
  PackerBuilderType :: string
  OutputPath :: string
  KeepInputArtifact :: bool
  Inline :: "string list option"
  InlineShebang :: string
  Script :: string
  Scripts :: "string list option"
  Vars :: "string list option"

text \<open>\<^verbatim>\<open>len\<close> and \<^verbatim>\<open>range\<close> treat a nil slice as the empty one.\<close>

definition elems :: "string list option \<Rightarrow> string list" where
  "elems xs = (case xs of None \<Rightarrow> [] | Some ys \<Rightarrow> ys)"

text \<open>
  The error of \<^verbatim>\<open>Configure\<close>: what \<^verbatim>\<open>config.Decode\<close> returned, or a \<^verbatim>\<open>packer.MultiError\<close>
  holding the messages that \<^verbatim>\<open>MultiErrorAppend\<close> collected, in order.
\<close>

datatype error = DecodeError string | MultiError "string list"

definition only_one_msg :: string where
  "only_one_msg = ''Only one of script or scripts can be specified.''"

definition either_msg :: string where
  "either_msg = ''Either a script file or inline script must be specified.''"

definition not_both_msg :: string where
  "not_both_msg = ''Only a script file or an inline script can be specified, not both.''"

definition bad_script_msg :: "string \<Rightarrow> string \<Rightarrow> string" where
  "bad_script_msg path cause = ''Bad script '' @ [squote] @ path @ [squote] @ '': '' @ cause"

definition bad_var_msg :: "string \<Rightarrow> string" where
  "bad_var_msg kv =
     ''Environment variable not in format '' @ [squote] @ ''key=value'' @ [squote] @ '': '' @ kv"

text \<open>
  Lines 283 to 288: \<^verbatim>\<open>os.Stat\<close> on every path; \<open>stat path\<close> is the error's text, \<open>None\<close>
  when the call succeeds. A failure appends one message and the loop goes on.
\<close>

fun check_scripts :: "(string \<Rightarrow> string option) \<Rightarrow> string list \<Rightarrow> string list \<Rightarrow> string list" where
  "check_scripts stat [] errs = errs"
| "check_scripts stat (path # paths) errs =
     (case stat path of
        Some cause \<Rightarrow> check_scripts stat paths (errs @ [bad_script_msg path cause])
      | None \<Rightarrow> check_scripts stat paths errs)"

text \<open>
  Lines 291 to 303: the loop over \<^verbatim>\<open>p.config.Vars\<close>. A string that does not split in two,
  or whose key is empty, appends one message and stays as it is; another one is replaced, at
  its index, by key, \<^verbatim>\<open>=\<close> and the value with its quotes replaced.
\<close>

definition malformed :: "string \<Rightarrow> bool" where
  "malformed kv = (length (SplitN2 kv) \<noteq> 2 \<or> hd (SplitN2 kv) = [])"

definition normalize_var :: "string \<Rightarrow> string" where
  "normalize_var kv = hd (SplitN2 kv) @ [equals] @ Replace_quotes (hd (tl (SplitN2 kv)))"

fun check_vars :: "string list \<Rightarrow> string list \<Rightarrow> string list \<times> string list" where
  "check_vars [] errs = ([], errs)"
| "check_vars (kv # kvs) errs =
     (if malformed kv
      then (case check_vars kvs (errs @ [bad_var_msg kv]) of (vs, es) \<Rightarrow> (kv # vs, es))
      else (case check_vars kvs errs of (vs, es) \<Rightarrow> (normalize_var kv # vs, es)))"

text \<open>Lines 249 to 251: an inline list that is present but empty becomes nil.\<close>

definition drop_empty_inline :: "Config \<Rightarrow> Config" where
  "drop_empty_inline c =
     (if Inline c \<noteq> None \<and> length (elems (Inline c)) = 0 then c\<lparr>Inline := None\<rparr> else c)"

text \<open>Lines 253 to 255.\<close>

definition default_shebang :: "Config \<Rightarrow> Config" where
  "default_shebang c = (if InlineShebang c = [] then c\<lparr>InlineShebang := ''/bin/sh -e''\<rparr> else c)"

text \<open>Lines 257 to 263: nil slices become empty ones.\<close>

definition default_scripts :: "Config \<Rightarrow> Config" where
  "default_scripts c = (if Scripts c = None then c\<lparr>Scripts := Some []\<rparr> else c)"

definition default_vars :: "Config \<Rightarrow> Config" where
  "default_vars c = (if Vars c = None then c\<lparr>Vars := Some []\<rparr> else c)"

text \<open>Lines 266 to 269.\<close>

definition check_only_one :: "Config \<Rightarrow> string list \<Rightarrow> string list" where
  "check_only_one c errs =
     (if Script c \<noteq> [] \<and> length (elems (Scripts c)) > 0 then errs @ [only_one_msg] else errs)"

text \<open>Lines 271 to 273.\<close>

definition collapse_script :: "Config \<Rightarrow> Config" where
  "collapse_script c = (if Script c \<noteq> [] then c\<lparr>Scripts := Some [Script c]\<rparr> else c)"

text \<open>Lines 275 to 281.\<close>

definition check_either :: "Config \<Rightarrow> string list \<Rightarrow> string list" where
  "check_either c errs =
     (if length (elems (Scripts c)) = 0 \<and> Inline c = None then errs @ [either_msg]
      else if length (elems (Scripts c)) > 0 \<and> Inline c \<noteq> None then errs @ [not_both_msg]
      else errs)"

text \<open>
  \<^verbatim>\<open>Configure\<close> (lines 237 to 310), its blocks in the order of the code. \<^verbatim>\<open>config.Decode\<close>
  belongs to the host: \<open>decoded\<close> is the error it returned, if any, and \<open>c\<close> is \<^verbatim>\<open>p.config\<close>
  as it left it. The result is \<^verbatim>\<open>p.config\<close> after the call and the error returned.
\<close>

definition Configure :: "(string \<Rightarrow> string option) \<Rightarrow> string option \<Rightarrow> Config \<Rightarrow> Config \<times> error option" where
  "Configure stat decoded c =
     (case decoded of
        Some e \<Rightarrow> (c, Some (DecodeError e))
      | None \<Rightarrow>
         (let c1 = default_vars (default_scripts (default_shebang (drop_empty_inline c)));
              errs1 = check_only_one c1 [];
              c2 = collapse_script c1;
              errs2 = check_either c2 errs1;
              errs3 = check_scripts stat (elems (Scripts c2)) errs2;
              (vars, errs4) = check_vars (elems (Vars c2)) errs3
          in (c2\<lparr>Vars := Some vars\<rparr>,
              if length errs4 > 0 then Some (MultiError errs4) else None)))"

subsection \<open>The host, the operating system and what a run leaves behind\<close>

text \<open>
  \<^verbatim>\<open>packer.Artifact\<close> is the host's interface; the code calls \<^verbatim>\<open>Files()\<close> only. An
  extensible record: whatever else the host's artifact carries is its \<open>more\<close> part.
\<close>

record Artifact =
  Files :: "string list"

text \<open>What \<^verbatim>\<open>cmd.Run()\<close> gives: its error, and what the process wrote to the two buffers.\<close>

record ran =
  run_err :: "string option"
  out :: string
  errout :: string

text \<open>
  Files and processes are outside the program. \<open>'w\<close> is the state of the machine, and each
  call the code makes is a function of it: an error's text or \<open>None\<close>, and the next state.
  Nothing is assumed of these functions. A file is named by its path.
\<close>

record 'w sys =
  TempFile :: "'w \<Rightarrow> (string + string) \<times> 'w"
  WriteString :: "'w \<Rightarrow> string \<Rightarrow> string \<Rightarrow> string option \<times> 'w"
  Flush :: "'w \<Rightarrow> string \<Rightarrow> string option \<times> 'w"
  Close :: "'w \<Rightarrow> string \<Rightarrow> 'w"
  Remove :: "'w \<Rightarrow> string \<Rightarrow> 'w"
  Open :: "'w \<Rightarrow> string \<Rightarrow> string option \<times> 'w"
  Environ :: "'w \<Rightarrow> string list"
  Run :: "'w \<Rightarrow> string list \<Rightarrow> string list \<Rightarrow> ran \<times> 'w"

text \<open>
  Every call that leaves the program is recorded, in order. \<open>EvRun w argv env\<close> is
  \<^verbatim>\<open>cmd.Run()\<close> of the command \<open>argv\<close> with \<^verbatim>\<open>cmd.Env = env\<close>, started in state \<open>w\<close>.
\<close>

datatype 'w event =
    EvSay string
  | EvMessage string
  | EvLog string
  | EvTempFile "string + string"
  | EvWriteString string string
  | EvFlush string
  | EvClose string
  | EvRemove string
  | EvOpen string
  | EvRun 'w "string list" "string list"

text \<open>A \<^verbatim>\<open>defer\<close> statement pushes a call; the calls run when the function returns, last one first.\<close>

datatype deferred = DeferRemove string | DeferClose string

record 'w frame =
  world :: 'w
  trace :: "'w event list"
  defers :: "deferred list"

definition emit :: "'w event \<Rightarrow> 'w frame \<Rightarrow> 'w frame" where
  "emit e s = s\<lparr>trace := trace s @ [e]\<rparr>"

definition act :: "'w event \<Rightarrow> 'w \<Rightarrow> 'w frame \<Rightarrow> 'w frame" where
  "act e w s = s\<lparr>world := w, trace := trace s @ [e]\<rparr>"

definition push_defer :: "deferred \<Rightarrow> 'w frame \<Rightarrow> 'w frame" where
  "push_defer d s = s\<lparr>defers := d # defers s\<rparr>"

fun run_deferred :: "'w sys \<Rightarrow> deferred list \<Rightarrow> 'w frame \<Rightarrow> 'w frame" where
  "run_deferred sys [] s = s"
| "run_deferred sys (DeferRemove name # ds) s =
     run_deferred sys ds (act (EvRemove name) (Remove sys (world s) name) s)"
| "run_deferred sys (DeferClose name # ds) s =
     run_deferred sys ds (act (EvClose name) (Close sys (world s) name) s)"

definition leave :: "'w sys \<Rightarrow> 'r \<Rightarrow> 'w frame \<Rightarrow> 'r \<times> 'w frame" where
  "leave sys r s = (r, run_deferred sys (defers s) (s\<lparr>defers := []\<rparr>))"

subsection \<open>PostProcess\<close>

definition preparing :: "string \<Rightarrow> string" where
  "preparing e = ''Error preparing shell script: '' @ e"

text \<open>Lines 334 to 338: one \<^verbatim>\<open>WriteString\<close> for each command, returning at the first error.\<close>

fun write_commands :: "'w sys \<Rightarrow> string \<Rightarrow> string list \<Rightarrow> 'w frame \<Rightarrow> string option \<times> 'w frame" where
  "write_commands sys tf [] s = (None, s)"
| "write_commands sys tf (command # commands) s =
     (case WriteString sys (world s) tf (command @ [newline]) of
        (Some e, w) \<Rightarrow> (Some e, act (EvWriteString tf (command @ [newline])) w s)
      | (None, w) \<Rightarrow>
          write_commands sys tf commands (act (EvWriteString tf (command @ [newline])) w s))"

text \<open>
  Lines 321 to 345. The result is the error to return, or the working list of scripts. The
  error of the first \<^verbatim>\<open>WriteString\<close>, the one of the shebang line, is dropped as in the code,
  and so is the one of \<^verbatim>\<open>tf.Close()\<close>.
\<close>

definition prepare_inline :: "'w sys \<Rightarrow> Config \<Rightarrow> string list \<Rightarrow> 'w frame \<Rightarrow> (string + string list) \<times> 'w frame" where
  "prepare_inline sys c scripts s =
     (case Inline c of
        None \<Rightarrow> (Inr scripts, s)
      | Some commands \<Rightarrow>
         (case TempFile sys (world s) of
            (Inl e, w1) \<Rightarrow> (Inl (preparing e), act (EvTempFile (Inl e)) w1 s)
          | (Inr tf, w1) \<Rightarrow>
             (let s1 = push_defer (DeferRemove tf) (act (EvTempFile (Inr tf)) w1 s);
                  scripts1 = scripts @ [tf];
                  shebang = ''#!'' @ InlineShebang c @ [newline];
                  s2 = act (EvWriteString tf shebang) (snd (WriteString sys (world s1) tf shebang)) s1
              in (case write_commands sys tf commands s2 of
                    (Some e, s3) \<Rightarrow> (Inl (preparing e), s3)
                  | (None, s3) \<Rightarrow>
                     (case Flush sys (world s3) tf of
                        (Some e, w4) \<Rightarrow> (Inl (preparing e), act (EvFlush tf) w4 s3)
                      | (None, w4) \<Rightarrow>
                         (let s4 = act (EvFlush tf) w4 s3
                          in (Inr scripts1, act (EvClose tf) (Close sys (world s4) tf) s4)))))))"

text \<open>
  Lines 359 to 388, the body of the inner loop. Both buffers are reset first, so what they
  hold after \<^verbatim>\<open>cmd.Run()\<close> is what this one process wrote.
\<close>

definition run_script :: "'w sys \<Rightarrow> string list \<Rightarrow> string \<Rightarrow> string \<Rightarrow> 'w frame \<Rightarrow> string option \<times> 'w frame" where
  "run_script sys envVars art path s =
     (let stdout = []; stderr = [];
          s1 = emit (EvSay (''Processing with shell script: '' @ path)) s;
          s2 = emit (EvLog (''Opening '' @ path @ '' for reading'')) s1
      in (case Open sys (world s2) path of
            (Some e, w3) \<Rightarrow> (Some (''Error opening shell script: '' @ e), act (EvOpen path) w3 s2)
          | (None, w3) \<Rightarrow>
             (let s3 = push_defer (DeferClose path) (act (EvOpen path) w3 s2);
                  s4 = emit (EvMessage (''Executing script with artifact: '' @ art)) s3;
                  command = Join2 path art;
                  s5 = emit (EvLog (''Executing shell command: '' @ command)) s4;
                  argv = [''sh'', ''-c'', command];
                  env = Environ sys (world s5) @ envVars;
                  r = fst (Run sys (world s5) argv env);
                  s6 = act (EvRun (world s5) argv env) (snd (Run sys (world s5) argv env)) s5;
                  stdoutString = TrimSpace (stdout @ out r);
                  stderrString = TrimSpace (stderr @ errout r)
              in if run_err r \<noteq> None
                 then (Some (''Error executing script: '' @ stderrString), s6)
                 else (None, emit (EvLog (''stderr: '' @ stderrString))
                               (emit (EvLog (''stdout: '' @ stdoutString)) s6)))))"

text \<open>Lines 358 to 389: the inner loop, over the scripts, for one artifact file.\<close>

fun loop_scripts :: "'w sys \<Rightarrow> string list \<Rightarrow> string \<Rightarrow> string list \<Rightarrow> 'w frame \<Rightarrow> string option \<times> 'w frame" where
  "loop_scripts sys envVars art [] s = (None, s)"
| "loop_scripts sys envVars art (path # paths) s =
     (case run_script sys envVars art path s of
        (Some e, s1) \<Rightarrow> (Some e, s1)
      | (None, s1) \<Rightarrow> loop_scripts sys envVars art paths s1)"

text \<open>Lines 357 to 390: the outer loop, over the artifact's files.\<close>

fun loop_files :: "'w sys \<Rightarrow> string list \<Rightarrow> string list \<Rightarrow> string list \<Rightarrow> 'w frame \<Rightarrow> string option \<times> 'w frame" where
  "loop_files sys envVars scripts [] s = (None, s)"
| "loop_files sys envVars scripts (art # arts) s =
     (case loop_scripts sys envVars art scripts s of
        (Some e, s1) \<Rightarrow> (Some e, s1)
      | (None, s1) \<Rightarrow> loop_files sys envVars scripts arts s1)"

text \<open>Lines 348 to 351.\<close>

definition envVars_of :: "Config \<Rightarrow> string list" where
  "envVars_of c =
     [''PACKER_BUILD_NAME='' @ [squote] @ PackerBuildName c @ [squote],
      ''PACKER_BUILDER_TYPE='' @ [squote] @ PackerBuilderType c @ [squote]] @ elems (Vars c)"

text \<open>
  \<^verbatim>\<open>PostProcess\<close> (lines 312 to 393), called with \<^verbatim>\<open>p.config = c\<close> in state \<open>w\<close>. The result
  is \<^verbatim>\<open>p.config\<close> after the call, the three values returned (the artifact or nil, the keep
  flag, the error or nil) and the frame when the deferred calls have run.
\<close>

definition PostProcess :: "'w sys \<Rightarrow> Config \<Rightarrow> 'a Artifact_scheme \<Rightarrow> 'w
    \<Rightarrow> Config \<times> ('a Artifact_scheme option \<times> bool \<times> string option) \<times> 'w frame" where
  "PostProcess sys c artifact w =
     (let keep = KeepInputArtifact c;
          scripts = elems (Scripts c);
          s0 = \<lparr>world = w, trace = [], defers = []\<rparr>
      in (case prepare_inline sys c scripts s0 of
            (Inl e, s1) \<Rightarrow> (c, leave sys (None, False, Some e) s1)
          | (Inr scripts1, s1) \<Rightarrow>
             (let envVars = envVars_of c;
                  files = Files artifact
              in (case loop_files sys envVars scripts1 files s1 of
                    (Some e, s2) \<Rightarrow> (c, leave sys (None, False, Some e) s2)
                  | (None, s2) \<Rightarrow> (c, leave sys (Some artifact, keep, None) s2)))))"

section \<open>The notions the properties are stated with\<close>

subsection \<open>Configuration\<close>

text \<open>What the configuration gives: some script, and some inline command.\<close>

definition scripts_given :: "Config \<Rightarrow> bool" where
  "scripts_given c = (Script c \<noteq> [] \<or> elems (Scripts c) \<noteq> [])"

definition inline_given :: "Config \<Rightarrow> bool" where
  "inline_given c = (Inline c \<noteq> None \<and> elems (Inline c) \<noteq> [])"

text \<open>The script sequence once the single-script field is collapsed into it.\<close>

definition resolved_scripts :: "Config \<Rightarrow> string list" where
  "resolved_scripts c = (if Script c \<noteq> [] then [Script c] else elems (Scripts c))"

text \<open>One message for each path that \<^verbatim>\<open>os.Stat\<close> rejects, in the order of the paths.\<close>

definition script_errors :: "(string \<Rightarrow> string option) \<Rightarrow> string list \<Rightarrow> string list" where
  "script_errors stat paths =
     concat (map (\<lambda>path. case stat path of None \<Rightarrow> []
                          | Some cause \<Rightarrow> [bad_script_msg path cause]) paths)"

text \<open>One message for each malformed variable, in the order of the variables.\<close>

definition var_errors :: "string list \<Rightarrow> string list" where
  "var_errors kvs = map bad_var_msg (filter malformed kvs)"

text \<open>The messages about which of script, scripts and inline are given.\<close>

definition choice_errors :: "Config \<Rightarrow> string list" where
  "choice_errors c =
     (if Script c \<noteq> [] \<and> elems (Scripts c) \<noteq> [] then [only_one_msg] else []) @
     (if \<not> scripts_given c \<and> \<not> inline_given c then [either_msg]
      else if scripts_given c \<and> inline_given c then [not_both_msg] else [])"

definition all_errors :: "(string \<Rightarrow> string option) \<Rightarrow> Config \<Rightarrow> string list" where
  "all_errors stat c =
     choice_errors c @ script_errors stat (resolved_scripts c) @ var_errors (elems (Vars c))"

subsection \<open>Runs\<close>

text \<open>The commands run, in order: the \<open>argv\<close> of every \<^verbatim>\<open>cmd.Run()\<close> recorded.\<close>

fun invocations :: "'w event list \<Rightarrow> string list list" where
  "invocations [] = []"
| "invocations (EvRun w argv env # tr) = argv # invocations tr"
| "invocations (e # tr) = invocations tr"

text \<open>Line 374: the command for an artifact file and a script.\<close>

definition sh_c :: "string \<times> string \<Rightarrow> string list" where
  "sh_c = (\<lambda>(art, path). [''sh'', ''-c'', Join2 path art])"

text \<open>
  The working list of scripts of a run started in state \<open>w\<close>: the configured scripts, and
  after them the temporary file when there are inline commands and the file was created.
\<close>

definition working_scripts :: "'w sys \<Rightarrow> Config \<Rightarrow> 'w \<Rightarrow> string list" where
  "working_scripts sys c w =
     elems (Scripts c) @
     (case Inline c of
        None \<Rightarrow> []
      | Some commands \<Rightarrow> (case fst (TempFile sys w) of Inl e \<Rightarrow> [] | Inr tf \<Rightarrow> [tf]))"

fun is_run :: "'w event \<Rightarrow> bool" where
  "is_run (EvRun w argv env) = True"
| "is_run e = False"

fun is_temp :: "'w event \<Rightarrow> bool" where
  "is_temp (EvTempFile r) = True"
| "is_temp e = False"

fun is_remove :: "'w event \<Rightarrow> bool" where
  "is_remove (EvRemove name) = True"
| "is_remove e = False"

text \<open>The environments of the commands run, in order.\<close>

fun environments :: "'w event list \<Rightarrow> string list list" where
  "environments [] = []"
| "environments (EvRun w argv env # tr) = env # environments tr"
| "environments (e # tr) = environments tr"

text \<open>What a deferred call records when it runs.\<close>

fun event_of :: "deferred \<Rightarrow> 'w event" where
  "event_of (DeferRemove name) = EvRemove name"
| "event_of (DeferClose name) = EvClose name"

fun is_close :: "deferred \<Rightarrow> bool" where
  "is_close (DeferClose name) = True"
| "is_close d = False"

fun is_cleanup :: "'w event \<Rightarrow> bool" where
  "is_cleanup (EvClose name) = True"
| "is_cleanup (EvRemove name) = True"
| "is_cleanup e = False"

text \<open>
  What the two loops may record: messages, the opening of a script, and runs whose
  environment is the one of line 377, the ambient one and then \<open>ev\<close>.
\<close>

fun loop_event :: "'w sys \<Rightarrow> string list \<Rightarrow> 'w event \<Rightarrow> bool" where
  "loop_event sys ev (EvSay m) = True"
| "loop_event sys ev (EvMessage m) = True"
| "loop_event sys ev (EvLog m) = True"
| "loop_event sys ev (EvOpen path) = True"
| "loop_event sys ev (EvRun w argv env) = (env = Environ sys w @ ev)"
| "loop_event sys ev e = False"

text \<open>A recorded run whose \<^verbatim>\<open>cmd.Run()\<close> returned an error, and the error line 384 builds from it.\<close>

fun failed :: "'w sys \<Rightarrow> 'w event \<Rightarrow> bool" where
  "failed sys (EvRun w argv env) = (run_err (fst (Run sys w argv env)) \<noteq> None)"
| "failed sys e = False"

fun executing :: "'w sys \<Rightarrow> 'w event \<Rightarrow> string" where
  "executing sys (EvRun w argv env) =
     ''Error executing script: '' @ TrimSpace (errout (fst (Run sys w argv env)))"
| "executing sys e = []"

text \<open>
  The shape of what the loops record when they end with \<open>r\<close>: loop events only; no failed
  run when \<open>r\<close> is nil; and when \<open>r\<close> is an error, either no failed run (a script could not be
  opened) or one failed run, the last event, whose error \<open>r\<close> is.
\<close>

definition steps :: "'w sys \<Rightarrow> string list \<Rightarrow> string option \<Rightarrow> 'w event list \<Rightarrow> bool" where
  "steps sys ev r evs =
     ((\<forall>e\<in>set evs. loop_event sys ev e) \<and>
      (case r of
         None \<Rightarrow> (\<forall>e\<in>set evs. \<not> failed sys e)
       | Some m \<Rightarrow>
           (\<forall>e\<in>set evs. \<not> failed sys e) \<or>
           (\<exists>evs0 e. evs = evs0 @ [e] \<and> (\<forall>e0\<in>set evs0. \<not> failed sys e0) \<and> failed sys e
              \<and> m = executing sys e)))"

text \<open>Lines 333 to 338: the strings handed to the buffered writer, in order.\<close>

definition script_lines :: "Config \<Rightarrow> string list \<Rightarrow> string list" where
  "script_lines c commands =
     (''#!'' @ InlineShebang c @ [newline]) # map (\<lambda>command. command @ [newline]) commands"

text \<open>The strings written to the file \<open>name\<close>, in order.\<close>

fun written :: "string \<Rightarrow> 'w event list \<Rightarrow> string list" where
  "written name [] = []"
| "written name (EvWriteString f d # tr) =
     (if f = name then d # written name tr else written name tr)"
| "written name (e # tr) = written name tr"

subsection \<open>The environment of a process\<close>

text \<open>
  An environment is a list of strings \<^verbatim>\<open>key=value\<close>. Under the rule that the last entry for a
  key wins, which is the one \<^verbatim>\<open>os/exec\<close> documents for \<^verbatim>\<open>Cmd.Env\<close>, the process finds for a
  key the value of the last entry that has it. A string with no \<^verbatim>\<open>=\<close> is no entry.
\<close>

definition entry :: "string \<Rightarrow> (string \<times> string) option" where
  "entry kv =
     (if equals \<in> set kv
      then Some (takeWhile (\<lambda>c. c \<noteq> equals) kv, tl (dropWhile (\<lambda>c. c \<noteq> equals) kv))
      else None)"

definition getenv_last :: "string list \<Rightarrow> string \<Rightarrow> string option" where
  "getenv_last env key = map_of (rev (List.map_filter entry env)) key"

subsection \<open>The words of a shell command\<close>






subsection \<open>Concrete configurations and file systems\<close>

definition blank_config :: Config where
  "blank_config = \<lparr>PackerBuildName = ''vm'', PackerBuilderType = ''qemu'', OutputPath = [],
     KeepInputArtifact = True, Inline = None, InlineShebang = [], Script = [], Scripts = None,
     Vars = None\<rparr>"

definition script_config :: Config where
  "script_config = blank_config\<lparr>Script := ''a.sh''\<rparr>"

definition both_config :: Config where
  "both_config = blank_config\<lparr>Script := ''a.sh'', Inline := Some [''echo hi'']\<rparr>"

definition empty_inline_config :: Config where
  "empty_inline_config = blank_config\<lparr>Script := ''a.sh'', Inline := Some []\<rparr>"

definition bad_config :: Config where
  "bad_config = blank_config\<lparr>Scripts := Some [''a.sh'', ''b.sh''],
     Vars := Some [''=foo'', ''foobar'', ''K=v'']\<rparr>"

definition every_file :: "string \<Rightarrow> string option" where
  "every_file path = None"

definition no_such_file :: "string \<Rightarrow> string option" where
  "no_such_file path = Some (''stat '' @ path @ '': no such file or directory'')"

subsection \<open>Concrete machines, configurations and artifacts\<close>

text \<open>
  A machine whose state counts the calls made. Every call succeeds, but \<^verbatim>\<open>sh -c\<close> of one
  of the strings \<open>bad\<close> fails, having written to its standard error.
\<close>

definition tmp_name :: string where
  "tmp_name = ''/tmp/packer-shell42''"

definition machine :: "string list \<Rightarrow> nat sys" where
  "machine bad =
     \<lparr>TempFile = (\<lambda>w. (Inr tmp_name, Suc w)),
      WriteString = (\<lambda>w name d. (None, Suc w)),
      Flush = (\<lambda>w name. (None, Suc w)),
      Close = (\<lambda>w name. Suc w),
      Remove = (\<lambda>w name. Suc w),
      Open = (\<lambda>w path. (None, Suc w)),
      Environ = (\<lambda>w. [''PATH=/bin'', ''NAME=ambient'']),
      Run = (\<lambda>w argv env.
        (if last argv \<in> set bad
         then \<lparr>run_err = Some ''exit status 1'', out = [], errout = '' boom'' @ [newline]\<rparr>
         else \<lparr>run_err = None, out = ''ok'' @ [newline], errout = []\<rparr>, Suc w))\<rparr>"

text \<open>What one pass of the inner loop records on this machine, before and after the run.\<close>

definition before_run :: "string \<Rightarrow> string \<Rightarrow> nat event list" where
  "before_run path art =
     [EvSay (''Processing with shell script: '' @ path),
      EvLog (''Opening '' @ path @ '' for reading''), EvOpen path,
      EvMessage (''Executing script with artifact: '' @ art),
      EvLog (''Executing shell command: '' @ Join2 path art)]"

definition after_run :: "nat event list" where
  "after_run = [EvLog ''stdout: ok'', EvLog ''stderr: '']"

definition machine_env :: "Config \<Rightarrow> string list" where
  "machine_env c = [''PATH=/bin'', ''NAME=ambient''] @ envVars_of c"

definition two_scripts :: Config where
  "two_scripts = blank_config\<lparr>Scripts := Some [''S1'', ''S2'']\<rparr>"

definition inline_config :: Config where
  "inline_config = blank_config\<lparr>Inline := Some [''echo hi'']\<rparr>"

definition quoted_config :: Config where
  "quoted_config = blank_config\<lparr>Script := ''a.sh'',
     Vars := Some [''NAME=O'' @ [squote] @ ''Brien'']\<rparr>"

definition two_files :: Artifact where
  "two_files = \<lparr>Files = [''A'', ''B'']\<rparr>"


section \<open>Properties of Configure\<close>

lemma elems_Some [simp]: "elems (Some xs) = xs"
  by (simp add: elems_def)

lemma script_errors_Nil [simp]: "script_errors stat [] = []"
  by (simp add: script_errors_def)

lemma check_scripts_eq: "check_scripts stat paths errs = errs @ script_errors stat paths"
  by (induction paths arbitrary: errs) (simp_all add: script_errors_def split: option.splits)

lemma check_vars_eq:
  "check_vars kvs errs =
     (map (\<lambda>kv. if malformed kv then kv else normalize_var kv) kvs, errs @ var_errors kvs)"
  by (induction kvs arbitrary: errs) (simp_all add: var_errors_def)

lemma drop_empty_inline_eq:
  "drop_empty_inline c = c\<lparr>Inline := (if inline_given c then Inline c else None)\<rparr>"
  by (cases "Inline c") (simp_all add: drop_empty_inline_def inline_given_def elems_def)

lemma default_shebang_eq:
  "default_shebang c =
     c\<lparr>InlineShebang := (if InlineShebang c = [] then ''/bin/sh -e'' else InlineShebang c)\<rparr>"
  by (simp add: default_shebang_def)

lemma default_scripts_eq: "default_scripts c = c\<lparr>Scripts := Some (elems (Scripts c))\<rparr>"
  by (cases "Scripts c") (simp_all add: default_scripts_def elems_def)

lemma default_vars_eq: "default_vars c = c\<lparr>Vars := Some (elems (Vars c))\<rparr>"
  by (cases "Vars c") (simp_all add: default_vars_def elems_def)

lemma collapse_script_eq:
  "Scripts c = Some xs \<Longrightarrow>
     collapse_script c = c\<lparr>Scripts := Some (if Script c \<noteq> [] then [Script c] else xs)\<rparr>"
  by (simp add: collapse_script_def)

lemma inline_given_Inline: "inline_given c \<Longrightarrow> Inline c \<noteq> None"
  by (simp add: inline_given_def)

text \<open>\<^verbatim>\<open>p.config\<close> after \<^verbatim>\<open>Configure\<close>, field by field.\<close>

lemma Configure_config:
  "fst (Configure stat None c) =
     c\<lparr>Inline := (if inline_given c then Inline c else None),
       InlineShebang := (if InlineShebang c = [] then ''/bin/sh -e'' else InlineShebang c),
       Scripts := Some (resolved_scripts c),
       Vars := Some (map (\<lambda>kv. if malformed kv then kv else normalize_var kv) (elems (Vars c)))\<rparr>"
  by (simp add: Configure_def Let_def check_vars_eq drop_empty_inline_eq default_shebang_eq
      default_scripts_eq default_vars_eq collapse_script_eq resolved_scripts_def)

text \<open>The error of \<^verbatim>\<open>Configure\<close>: all the messages, or nil when there is none.\<close>

lemma Configure_errors:
  "snd (Configure stat None c) =
     (if all_errors stat c = [] then None else Some (MultiError (all_errors stat c)))"
  unfolding all_errors_def
  by (cases "Script c = []"; cases "elems (Scripts c) = []"; cases "inline_given c")
     (simp_all add: Configure_def Let_def check_scripts_eq check_vars_eq drop_empty_inline_eq
      default_shebang_eq default_scripts_eq default_vars_eq collapse_script_eq
      check_only_one_def check_either_def choice_errors_def scripts_given_def inline_given_Inline
      resolved_scripts_def)

text \<open>A variable is malformed exactly when it is not a non-empty key, \<^verbatim>\<open>=\<close> and a value.\<close>

lemma malformed_iff:
  "malformed kv = (\<not> (\<exists>k v. k \<noteq> [] \<and> equals \<notin> set k \<and> kv = k @ equals # v))"
proof (cases "equals \<in> set kv")
  case False
  then show ?thesis by (auto simp: malformed_def SplitN2_def)
next
  case True
  then have kv: "kv = takeWhile (\<lambda>c. c \<noteq> equals) kv @ equals # tl (dropWhile (\<lambda>c. c \<noteq> equals) kv)"
    by (metis (mono_tags, lifting) takeWhile_dropWhile_id dropWhile_eq_Nil_conv hd_dropWhile
        list.collapse)
  have first: "takeWhile (\<lambda>c. c \<noteq> equals) (k @ equals # v) = k" if "equals \<notin> set k" for k v
    using that by (induction k) auto
  show ?thesis
  proof
    assume "malformed kv"
    with True have empty: "takeWhile (\<lambda>c. c \<noteq> equals) kv = []"
      by (simp add: malformed_def SplitN2_def)
    show "\<not> (\<exists>k v. k \<noteq> [] \<and> equals \<notin> set k \<and> kv = k @ equals # v)"
    proof
      assume "\<exists>k v. k \<noteq> [] \<and> equals \<notin> set k \<and> kv = k @ equals # v"
      then obtain k v where "k \<noteq> []" "equals \<notin> set k" "kv = k @ equals # v" by blast
      with first [of k v] empty show False by simp
    qed
  next
    assume none: "\<not> (\<exists>k v. k \<noteq> [] \<and> equals \<notin> set k \<and> kv = k @ equals # v)"
    have "equals \<notin> set (takeWhile (\<lambda>c. c \<noteq> equals) kv)"
      by (auto dest: set_takeWhileD)
    with none kv have "takeWhile (\<lambda>c. c \<noteq> equals) kv = []" by metis
    with True show "malformed kv" by (simp add: malformed_def SplitN2_def)
  qed
qed

text \<open>
  C4. \<^verbatim>\<open>Configure\<close> returns no error only when exactly one of the two is given: a script
  sequence that is not empty once the single-script field is collapsed into it, or inline
  commands, where a list that is present but empty counts as absent. The configuration it
  leaves says the same. When neither is given the error holds the message that one must be
  specified, when both are given it holds the message that both cannot be.
\<close>

theorem Configure_exactly_one:
  assumes "Configure stat None c = (c1, err)"
  shows "(err = None \<longrightarrow> scripts_given c \<noteq> inline_given c)
     \<and> (elems (Scripts c1) \<noteq> []) = scripts_given c
     \<and> (Inline c1 \<noteq> None) = inline_given c
     \<and> (Inline c = Some [] \<longrightarrow> Inline c1 = None)
     \<and> (\<not> scripts_given c \<and> \<not> inline_given c \<longrightarrow>
          (\<exists>errs. err = Some (MultiError errs) \<and> either_msg \<in> set errs))
     \<and> (scripts_given c \<and> inline_given c \<longrightarrow>
          (\<exists>errs. err = Some (MultiError errs) \<and> not_both_msg \<in> set errs))"
proof -
  from assms have c1: "c1 = fst (Configure stat None c)" and err: "err = snd (Configure stat None c)"
    by simp_all
  have "err = None \<longrightarrow> scripts_given c \<noteq> inline_given c"
    unfolding err Configure_errors by (auto simp: all_errors_def choice_errors_def)
  moreover have "(elems (Scripts c1) \<noteq> []) = scripts_given c"
    unfolding c1 Configure_config by (simp add: resolved_scripts_def scripts_given_def)
  moreover have "(Inline c1 \<noteq> None) = inline_given c"
    unfolding c1 Configure_config by (simp add: inline_given_def)
  moreover have "Inline c = Some [] \<longrightarrow> Inline c1 = None"
    unfolding c1 Configure_config by (simp add: inline_given_def)
  moreover have "\<not> scripts_given c \<and> \<not> inline_given c \<longrightarrow>
          (\<exists>errs. err = Some (MultiError errs) \<and> either_msg \<in> set errs)"
    unfolding err Configure_errors by (simp add: all_errors_def choice_errors_def)
  moreover have "scripts_given c \<and> inline_given c \<longrightarrow>
          (\<exists>errs. err = Some (MultiError errs) \<and> not_both_msg \<in> set errs)"
    unfolding err Configure_errors by (simp add: all_errors_def choice_errors_def)
  ultimately show ?thesis by blast
qed

theorem Configure_exactly_one_witness:
  "snd (Configure every_file None script_config) = None
   \<and> scripts_given script_config \<and> \<not> inline_given script_config
   \<and> \<not> scripts_given blank_config \<and> \<not> inline_given blank_config
   \<and> (\<exists>errs. snd (Configure every_file None blank_config) = Some (MultiError errs)
         \<and> either_msg \<in> set errs)
   \<and> scripts_given both_config \<and> inline_given both_config
   \<and> (\<exists>errs. snd (Configure every_file None both_config) = Some (MultiError errs)
         \<and> not_both_msg \<in> set errs)
   \<and> Inline empty_inline_config = Some []
   \<and> Inline (fst (Configure every_file None empty_inline_config)) = None"
proof -
  have ok: "snd (Configure every_file None script_config) = None"
    by code_simp
  have one: "scripts_given script_config" "\<not> inline_given script_config"
    by (simp_all add: scripts_given_def inline_given_def script_config_def blank_config_def)
  have none: "\<not> scripts_given blank_config" "\<not> inline_given blank_config"
    by (simp_all add: scripts_given_def inline_given_def blank_config_def elems_def)
  have both: "scripts_given both_config" "inline_given both_config"
    by (simp_all add: scripts_given_def inline_given_def both_config_def blank_config_def)
  have empty: "Inline empty_inline_config = Some []"
    by (simp add: empty_inline_config_def blank_config_def)
  note inst = Configure_exactly_one [OF prod.collapse [symmetric], of every_file]
  from inst [of blank_config] none
  have "\<exists>errs. snd (Configure every_file None blank_config) = Some (MultiError errs)
         \<and> either_msg \<in> set errs" by blast
  moreover from inst [of both_config] both
  have "\<exists>errs. snd (Configure every_file None both_config) = Some (MultiError errs)
         \<and> not_both_msg \<in> set errs" by blast
  moreover from inst [of empty_inline_config] empty
  have "Inline (fst (Configure every_file None empty_inline_config)) = None" by blast
  ultimately show ?thesis using ok one none both empty by blast
qed

text \<open>
  C9. \<^verbatim>\<open>Configure\<close> collects every violation and stops at none. Its error is nil when the
  list of messages is empty and holds the whole list otherwise. The list is the messages
  about the choice of scripts, then one message for each script path that cannot be
  stat-ed, then one for each environment variable that is not a non-empty key, \<^verbatim>\<open>=\<close> and a
  value: each failing path and each failing variable has its own message, which quotes it.
\<close>

theorem Configure_aggregates:
  assumes "Configure stat None c = (c1, err)"
  shows "err = (if all_errors stat c = [] then None else Some (MultiError (all_errors stat c)))
     \<and> (\<forall>path\<in>set (resolved_scripts c). \<forall>cause. stat path = Some cause \<longrightarrow>
           bad_script_msg path cause \<in> set (all_errors stat c))
     \<and> (\<forall>kv\<in>set (elems (Vars c)).
           \<not> (\<exists>k v. k \<noteq> [] \<and> equals \<notin> set k \<and> kv = k @ equals # v) \<longrightarrow>
           bad_var_msg kv \<in> set (all_errors stat c))
     \<and> length (all_errors stat c) =
         length (choice_errors c)
         + length (filter (\<lambda>path. stat path \<noteq> None) (resolved_scripts c))
         + length (filter malformed (elems (Vars c)))"
proof -
  from assms have "err = snd (Configure stat None c)" by simp
  then have "err = (if all_errors stat c = [] then None else Some (MultiError (all_errors stat c)))"
    by (simp add: Configure_errors)
  moreover have "\<forall>path\<in>set (resolved_scripts c). \<forall>cause. stat path = Some cause \<longrightarrow>
           bad_script_msg path cause \<in> set (all_errors stat c)"
    by (force simp: all_errors_def script_errors_def)
  moreover have "\<forall>kv\<in>set (elems (Vars c)).
           \<not> (\<exists>k v. k \<noteq> [] \<and> equals \<notin> set k \<and> kv = k @ equals # v) \<longrightarrow>
           bad_var_msg kv \<in> set (all_errors stat c)"
    unfolding malformed_iff [symmetric] by (simp add: all_errors_def var_errors_def)
  moreover have "length (script_errors stat paths) = length (filter (\<lambda>path. stat path \<noteq> None) paths)"
    for paths
    by (induction paths) (auto simp: script_errors_def)
  then have "length (all_errors stat c) =
         length (choice_errors c)
         + length (filter (\<lambda>path. stat path \<noteq> None) (resolved_scripts c))
         + length (filter malformed (elems (Vars c)))"
    by (simp add: all_errors_def var_errors_def)
  ultimately show ?thesis by blast
qed

theorem Configure_aggregates_witness:
  "snd (Configure no_such_file None bad_config) =
     Some (MultiError
       [bad_script_msg ''a.sh'' ''stat a.sh: no such file or directory'',
        bad_script_msg ''b.sh'' ''stat b.sh: no such file or directory'',
        bad_var_msg ''=foo'', bad_var_msg ''foobar''])
   \<and> ''b.sh'' \<in> set (resolved_scripts bad_config)
   \<and> no_such_file ''b.sh'' = Some ''stat b.sh: no such file or directory''
   \<and> bad_script_msg ''b.sh'' ''stat b.sh: no such file or directory''
        \<in> set (all_errors no_such_file bad_config)
   \<and> ''=foo'' \<in> set (elems (Vars bad_config))
   \<and> \<not> (\<exists>k v. k \<noteq> [] \<and> equals \<notin> set k \<and> ''=foo'' = k @ equals # v)
   \<and> bad_var_msg ''=foo'' \<in> set (all_errors no_such_file bad_config)
   \<and> length (all_errors no_such_file bad_config) = 4"
proof -
  have errs: "all_errors no_such_file bad_config =
       [bad_script_msg ''a.sh'' ''stat a.sh: no such file or directory'',
        bad_script_msg ''b.sh'' ''stat b.sh: no such file or directory'',
        bad_var_msg ''=foo'', bad_var_msg ''foobar'']"
    by code_simp
  have path: "''b.sh'' \<in> set (resolved_scripts bad_config)"
    "no_such_file ''b.sh'' = Some ''stat b.sh: no such file or directory''"
    by (simp_all add: resolved_scripts_def bad_config_def blank_config_def no_such_file_def)
  have var: "''=foo'' \<in> set (elems (Vars bad_config))"
    by (simp add: bad_config_def blank_config_def)
  have "malformed ''=foo''" by code_simp
  with malformed_iff [of "''=foo''"]
  have bad: "\<not> (\<exists>k v. k \<noteq> [] \<and> equals \<notin> set k \<and> ''=foo'' = k @ equals # v)"
    by blast
  note inst = Configure_aggregates [OF prod.collapse [symmetric], of no_such_file bad_config]
  from inst errs have "snd (Configure no_such_file None bad_config) =
     Some (MultiError
       [bad_script_msg ''a.sh'' ''stat a.sh: no such file or directory'',
        bad_script_msg ''b.sh'' ''stat b.sh: no such file or directory'',
        bad_var_msg ''=foo'', bad_var_msg ''foobar''])"
    by simp
  moreover from inst path
  have "bad_script_msg ''b.sh'' ''stat b.sh: no such file or directory''
        \<in> set (all_errors no_such_file bad_config)" by blast
  moreover from inst var bad
  have "bad_var_msg ''=foo'' \<in> set (all_errors no_such_file bad_config)" by blast
  moreover from errs have "length (all_errors no_such_file bad_config) = 4" by simp
  ultimately show ?thesis using path var bad by blast
qed

section \<open>Properties of PostProcess\<close>

subsection \<open>Frames and traces\<close>

lemma trace_emit [simp]: "trace (emit e s) = trace s @ [e]"
  by (simp add: emit_def)

lemma trace_act [simp]: "trace (act e w s) = trace s @ [e]"
  by (simp add: act_def)

lemma trace_push_defer [simp]: "trace (push_defer d s) = trace s"
  by (simp add: push_defer_def)

lemma defers_emit [simp]: "defers (emit e s) = defers s"
  by (simp add: emit_def)

lemma defers_act [simp]: "defers (act e w s) = defers s"
  by (simp add: act_def)

lemma defers_push_defer [simp]: "defers (push_defer d s) = d # defers s"
  by (simp add: push_defer_def)

lemma world_emit [simp]: "world (emit e s) = world s"
  by (simp add: emit_def)

lemma world_act [simp]: "world (act e w s) = w"
  by (simp add: act_def)

lemma world_push_defer [simp]: "world (push_defer d s) = world s"
  by (simp add: push_defer_def)

lemma invocations_append [simp]: "invocations (xs @ ys) = invocations xs @ invocations ys"
  by (induction xs rule: invocations.induct) simp_all

lemma no_run_invocations: "\<forall>e\<in>set evs. \<not> is_run e \<Longrightarrow> invocations evs = []"
  by (induction evs rule: invocations.induct) auto

lemma written_append [simp]: "written name (xs @ ys) = written name xs @ written name ys"
  by (induction name xs rule: written.induct) simp_all

lemma written_writes [simp]: "written name (map (EvWriteString name) ws) = ws"
  by (induction ws) simp_all

lemma trace_run_deferred: "trace (run_deferred sys ds s) = trace s @ map event_of ds"
  by (induction sys ds s rule: run_deferred.induct) simp_all

lemma cleanup_event_of [simp]: "is_cleanup (event_of d)"
  by (cases d) simp_all

lemma run_event_of [simp]: "\<not> is_run (event_of d)"
  by (cases d) simp_all

lemma temp_event_of [simp]: "\<not> is_temp (event_of d)"
  by (cases d) simp_all

lemma written_deferred [simp]: "written name (map event_of ds) = []"
proof (induction ds)
  case Nil
  show ?case by simp
next
  case (Cons d ds)
  then show ?case by (cases d) simp_all
qed

lemma invocations_deferred [simp]: "invocations (map event_of ds) = []"
  by (rule no_run_invocations) simp

subsection \<open>The order of the runs\<close>

lemma run_script_invocations:
  assumes "run_script sys ev art path s = (r, s1)"
  shows "\<exists>ys. invocations (trace s1) = invocations (trace s) @ ys \<and> prefix ys [sh_c (art, path)]
     \<and> (r = None \<longrightarrow> ys = [sh_c (art, path)])"
  using assms
  by (auto simp: run_script_def Let_def sh_c_def split: prod.splits option.splits if_splits)

lemma loop_scripts_invocations:
  assumes "loop_scripts sys ev art paths s = (r, s1)"
  shows "\<exists>ys. invocations (trace s1) = invocations (trace s) @ ys
     \<and> prefix ys (map (\<lambda>path. sh_c (art, path)) paths)
     \<and> (r = None \<longrightarrow> ys = map (\<lambda>path. sh_c (art, path)) paths)"
  using assms
proof (induction paths arbitrary: s)
  case Nil
  then show ?case by simp
next
  case (Cons path paths)
  obtain r0 s0 where step: "run_script sys ev art path s = (r0, s0)"
    by (cases "run_script sys ev art path s")
  from run_script_invocations [OF step] obtain ys0 where
    ys0: "invocations (trace s0) = invocations (trace s) @ ys0"
      "prefix ys0 [sh_c (art, path)]" "r0 = None \<longrightarrow> ys0 = [sh_c (art, path)]"
    by blast
  show ?case
  proof (cases r0)
    case (Some e)
    with Cons.prems step have "r = Some e" "s1 = s0" by simp_all
    moreover from ys0(2) have "prefix ys0 ([sh_c (art, path)] @ map (\<lambda>p. sh_c (art, p)) paths)"
      by (rule prefix_prefix)
    ultimately show ?thesis using ys0(1) by auto
  next
    case None
    with Cons.prems step have rest: "loop_scripts sys ev art paths s0 = (r, s1)" by simp
    from Cons.IH [OF rest] obtain ys where
      ys: "invocations (trace s1) = invocations (trace s0) @ ys"
        "prefix ys (map (\<lambda>p. sh_c (art, p)) paths)"
        "r = None \<longrightarrow> ys = map (\<lambda>p. sh_c (art, p)) paths"
      by blast
    from None ys0(3) have "ys0 = [sh_c (art, path)]" by simp
    with ys ys0(1) show ?thesis by auto
  qed
qed

lemma loop_files_invocations:
  assumes "loop_files sys ev scripts arts s = (r, s1)"
  shows "\<exists>ys. invocations (trace s1) = invocations (trace s) @ ys
     \<and> prefix ys (map sh_c (List.product arts scripts))
     \<and> (r = None \<longrightarrow> ys = map sh_c (List.product arts scripts))"
  using assms
proof (induction arts arbitrary: s)
  case Nil
  then show ?case by simp
next
  case (Cons art arts)
  obtain r0 s0 where step: "loop_scripts sys ev art scripts s = (r0, s0)"
    by (cases "loop_scripts sys ev art scripts s")
  from loop_scripts_invocations [OF step] obtain ys0 where
    ys0: "invocations (trace s0) = invocations (trace s) @ ys0"
      "prefix ys0 (map (\<lambda>p. sh_c (art, p)) scripts)"
      "r0 = None \<longrightarrow> ys0 = map (\<lambda>p. sh_c (art, p)) scripts"
    by blast
  have prod: "map sh_c (List.product (art # arts) scripts)
      = map (\<lambda>p. sh_c (art, p)) scripts @ map sh_c (List.product arts scripts)"
    by (simp add: comp_def)
  show ?case
  proof (cases r0)
    case (Some e)
    with Cons.prems step have "r = Some e" "s1 = s0" by simp_all
    moreover from ys0(2) have "prefix ys0 (map sh_c (List.product (art # arts) scripts))"
      unfolding prod by (rule prefix_prefix)
    ultimately show ?thesis using ys0(1) by auto
  next
    case None
    with Cons.prems step have rest: "loop_files sys ev scripts arts s0 = (r, s1)" by simp
    from Cons.IH [OF rest] obtain ys where
      ys: "invocations (trace s1) = invocations (trace s0) @ ys"
        "prefix ys (map sh_c (List.product arts scripts))"
        "r = None \<longrightarrow> ys = map sh_c (List.product arts scripts)"
      by blast
    from None ys0(3) have "ys0 = map (\<lambda>p. sh_c (art, p)) scripts" by simp
    with ys ys0(1) show ?thesis unfolding prod by auto
  qed
qed

subsection \<open>The shape of what the loops record\<close>

lemma steps_Nil: "steps sys ev None []"
  by (simp add: steps_def)

lemma steps_append:
  assumes "steps sys ev None evs0" and "steps sys ev r evs"
  shows "steps sys ev r (evs0 @ evs)"
proof (cases r)
  case None
  with assms show ?thesis by (auto simp: steps_def)
next
  case (Some m)
  from assms(1) have ok0: "\<forall>e\<in>set evs0. loop_event sys ev e" "\<forall>e\<in>set evs0. \<not> failed sys e"
    by (simp_all add: steps_def)
  from assms(2) Some have ok: "\<forall>e\<in>set evs. loop_event sys ev e"
    and alt: "(\<forall>e\<in>set evs. \<not> failed sys e) \<or>
           (\<exists>evs1 e. evs = evs1 @ [e] \<and> (\<forall>e0\<in>set evs1. \<not> failed sys e0) \<and> failed sys e
              \<and> m = executing sys e)"
    by (simp_all add: steps_def)
  from ok0 ok have all: "\<forall>e\<in>set (evs0 @ evs). loop_event sys ev e" by auto
  from alt show ?thesis
  proof
    assume "\<forall>e\<in>set evs. \<not> failed sys e"
    with ok0 all Some show ?thesis by (auto simp: steps_def)
  next
    assume "\<exists>evs1 e. evs = evs1 @ [e] \<and> (\<forall>e0\<in>set evs1. \<not> failed sys e0) \<and> failed sys e
              \<and> m = executing sys e"
    then obtain evs1 e where e: "evs = evs1 @ [e]" "\<forall>e0\<in>set evs1. \<not> failed sys e0"
       "failed sys e" "m = executing sys e" by blast
    then have "evs0 @ evs = (evs0 @ evs1) @ [e]" "\<forall>e0\<in>set (evs0 @ evs1). \<not> failed sys e0"
      using ok0 by auto
    with all show ?thesis unfolding steps_def using Some e(3,4) by (simp only: option.case) blast
  qed
qed

lemma run_script_steps:
  assumes "run_script sys ev art path s = (r, s1)"
  shows "\<exists>evs ds. trace s1 = trace s @ evs \<and> defers s1 = ds @ defers s
     \<and> (\<forall>d\<in>set ds. is_close d) \<and> steps sys ev r evs"
proof (cases "fst (Open sys (world s) path)")
  case (Some e)
  with assms show ?thesis
    by (auto simp: run_script_def Let_def steps_def split: prod.splits)
next
  case None
  let ?w = "snd (Open sys (world s) path)"
  let ?argv = "[''sh'', ''-c'', Join2 path art]"
  let ?env = "Environ sys ?w @ ev"
  let ?run = "EvRun ?w ?argv ?env"
  let ?head = "[EvSay (''Processing with shell script: '' @ path),
      EvLog (''Opening '' @ path @ '' for reading''), EvOpen path,
      EvMessage (''Executing script with artifact: '' @ art),
      EvLog (''Executing shell command: '' @ Join2 path art)]"
  have head: "\<forall>e\<in>set ?head. loop_event sys ev e \<and> \<not> failed sys e"
    by simp
  show ?thesis
  proof (cases "run_err (fst (Run sys ?w ?argv ?env))")
    case ok: None
    let ?evs = "?head @ [?run,
        EvLog (''stdout: '' @ TrimSpace (out (fst (Run sys ?w ?argv ?env)))),
        EvLog (''stderr: '' @ TrimSpace (errout (fst (Run sys ?w ?argv ?env))))]"
    from ok None assms have "trace s1 = trace s @ ?evs"
      "defers s1 = [DeferClose path] @ defers s" "r = None"
      by (auto simp: run_script_def Let_def split: prod.splits)
    moreover have "steps sys ev None ?evs"
      using ok by (simp add: steps_def)
    ultimately show ?thesis
      by (intro exI [of _ ?evs] exI [of _ "[DeferClose path]"]) simp
  next
    case bad: (Some x)
    with None assms have "trace s1 = trace s @ ?head @ [?run]"
      "defers s1 = [DeferClose path] @ defers s" "r = Some (executing sys ?run)"
      by (auto simp: run_script_def Let_def split: prod.splits)
    moreover have "steps sys ev (Some (executing sys ?run)) (?head @ [?run])"
      unfolding steps_def using bad head by simp
    ultimately show ?thesis
      by (intro exI [of _ "?head @ [?run]"] exI [of _ "[DeferClose path]"]) simp
  qed
qed

lemma loop_scripts_steps:
  assumes "loop_scripts sys ev art paths s = (r, s1)"
  shows "\<exists>evs ds. trace s1 = trace s @ evs \<and> defers s1 = ds @ defers s
     \<and> (\<forall>d\<in>set ds. is_close d) \<and> steps sys ev r evs"
  using assms
proof (induction paths arbitrary: s)
  case Nil
  then have "trace s1 = trace s @ []" "defers s1 = [] @ defers s" "r = None" by simp_all
  then show ?case using steps_Nil by fastforce
next
  case (Cons path paths)
  obtain r0 s0 where step: "run_script sys ev art path s = (r0, s0)"
    by (cases "run_script sys ev art path s")
  from run_script_steps [OF step] obtain evs0 ds0 where
    first: "trace s0 = trace s @ evs0" "defers s0 = ds0 @ defers s"
      "\<forall>d\<in>set ds0. is_close d" "steps sys ev r0 evs0"
    by blast
  show ?case
  proof (cases r0)
    case (Some e)
    with Cons.prems step have "r = r0" "s1 = s0" by simp_all
    with first show ?thesis by blast
  next
    case None
    with Cons.prems step have rest: "loop_scripts sys ev art paths s0 = (r, s1)" by simp
    from Cons.IH [OF rest] obtain evs ds where
      more: "trace s1 = trace s0 @ evs" "defers s1 = ds @ defers s0"
        "\<forall>d\<in>set ds. is_close d" "steps sys ev r evs"
      by blast
    from first(4) None more(4) have "steps sys ev r (evs0 @ evs)" by (simp add: steps_append)
    moreover from first more have "trace s1 = trace s @ evs0 @ evs"
      "defers s1 = (ds @ ds0) @ defers s" "\<forall>d\<in>set (ds @ ds0). is_close d" by auto
    ultimately show ?thesis by blast
  qed
qed

lemma loop_files_steps:
  assumes "loop_files sys ev scripts arts s = (r, s1)"
  shows "\<exists>evs ds. trace s1 = trace s @ evs \<and> defers s1 = ds @ defers s
     \<and> (\<forall>d\<in>set ds. is_close d) \<and> steps sys ev r evs"
  using assms
proof (induction arts arbitrary: s)
  case Nil
  then have "trace s1 = trace s @ []" "defers s1 = [] @ defers s" "r = None" by simp_all
  then show ?case using steps_Nil by fastforce
next
  case (Cons art arts)
  obtain r0 s0 where step: "loop_scripts sys ev art scripts s = (r0, s0)"
    by (cases "loop_scripts sys ev art scripts s")
  from loop_scripts_steps [OF step] obtain evs0 ds0 where
    first: "trace s0 = trace s @ evs0" "defers s0 = ds0 @ defers s"
      "\<forall>d\<in>set ds0. is_close d" "steps sys ev r0 evs0"
    by blast
  show ?case
  proof (cases r0)
    case (Some e)
    with Cons.prems step have "r = r0" "s1 = s0" by simp_all
    with first show ?thesis by blast
  next
    case None
    with Cons.prems step have rest: "loop_files sys ev scripts arts s0 = (r, s1)" by simp
    from Cons.IH [OF rest] obtain evs ds where
      more: "trace s1 = trace s0 @ evs" "defers s1 = ds @ defers s0"
        "\<forall>d\<in>set ds. is_close d" "steps sys ev r evs"
      by blast
    from first(4) None more(4) have "steps sys ev r (evs0 @ evs)" by (simp add: steps_append)
    moreover from first more have "trace s1 = trace s @ evs0 @ evs"
      "defers s1 = (ds @ ds0) @ defers s" "\<forall>d\<in>set (ds @ ds0). is_close d" by auto
    ultimately show ?thesis by blast
  qed
qed

subsection \<open>The temporary script\<close>

lemma write_commands_shape:
  assumes "write_commands sys tf commands s = (r, s1)"
  shows "\<exists>ws. trace s1 = trace s @ map (EvWriteString tf) ws
     \<and> prefix ws (map (\<lambda>command. command @ [newline]) commands)
     \<and> (r = None \<longrightarrow> ws = map (\<lambda>command. command @ [newline]) commands)
     \<and> defers s1 = defers s"
  using assms
proof (induction commands arbitrary: s)
  case Nil
  then show ?case by simp
next
  case (Cons command commands)
  let ?line = "command @ [newline]"
  let ?s0 = "act (EvWriteString tf ?line) (snd (WriteString sys (world s) tf ?line)) s"
  show ?case
  proof (cases "fst (WriteString sys (world s) tf ?line)")
    case (Some e)
    with Cons.prems have "r = Some e" "s1 = ?s0" by (simp_all add: split_beta)
    then have "trace s1 = trace s @ map (EvWriteString tf) [?line]" "defers s1 = defers s" by simp_all
    moreover have "prefix [?line] (map (\<lambda>command. command @ [newline]) (command # commands))" by simp
    ultimately show ?thesis using \<open>r = Some e\<close> by (intro exI [of _ "[?line]"]) blast
  next
    case None
    with Cons.prems have rest: "write_commands sys tf commands ?s0 = (r, s1)"
      by (simp add: split_beta)
    from Cons.IH [OF rest] obtain ws where
      ws: "trace s1 = trace ?s0 @ map (EvWriteString tf) ws"
        "prefix ws (map (\<lambda>command. command @ [newline]) commands)"
        "r = None \<longrightarrow> ws = map (\<lambda>command. command @ [newline]) commands"
        "defers s1 = defers ?s0"
      by blast
    then have "trace s1 = trace s @ map (EvWriteString tf) (?line # ws)"
      "prefix (?line # ws) (map (\<lambda>command. command @ [newline]) (command # commands))"
      "r = None \<longrightarrow> ?line # ws = map (\<lambda>command. command @ [newline]) (command # commands)"
      "defers s1 = defers s"
      by simp_all
    then show ?thesis by (intro exI [of _ "?line # ws"]) blast
  qed
qed

lemma prepare_inline_None:
  assumes "prepare_inline sys c scripts s = (r, s1)" and "Inline c = None"
  shows "r = Inr scripts \<and> s1 = s"
  using assms by (simp add: prepare_inline_def)

lemma prepare_inline_no_file:
  assumes "prepare_inline sys c scripts s = (r, s1)" and "Inline c = Some commands"
    and "fst (TempFile sys (world s)) = Inl e"
  shows "r = Inl (preparing e) \<and> trace s1 = trace s @ [EvTempFile (Inl e)] \<and> defers s1 = defers s"
  using assms by (auto simp: prepare_inline_def split_beta)

lemma prepare_inline_file:
  assumes "prepare_inline sys c scripts s = (r, s1)" and "Inline c = Some commands"
    and "fst (TempFile sys (world s)) = Inr tf"
  shows "\<exists>ws tail. trace s1 = trace s @ EvTempFile (Inr tf) # map (EvWriteString tf) ws @ tail
     \<and> prefix ws (script_lines c commands)
     \<and> (tail = [] \<or> tail = [EvFlush tf] \<or> tail = [EvFlush tf, EvClose tf])
     \<and> defers s1 = DeferRemove tf # defers s
     \<and> (case r of Inl m \<Rightarrow> \<exists>e. m = preparing e
         | Inr working \<Rightarrow> working = scripts @ [tf] \<and> ws = script_lines c commands
             \<and> tail = [EvFlush tf, EvClose tf])"
proof -
  let ?shebang = "''#!'' @ InlineShebang c @ [newline]"
  let ?s1 = "push_defer (DeferRemove tf) (act (EvTempFile (Inr tf)) (snd (TempFile sys (world s))) s)"
  let ?s2 = "act (EvWriteString tf ?shebang) (snd (WriteString sys (world ?s1) tf ?shebang)) ?s1"
  obtain r3 s3 where loop: "write_commands sys tf commands ?s2 = (r3, s3)"
    by (cases "write_commands sys tf commands ?s2")
  from write_commands_shape [OF loop] obtain ws where
    ws: "trace s3 = trace ?s2 @ map (EvWriteString tf) ws"
      "prefix ws (map (\<lambda>command. command @ [newline]) commands)"
      "r3 = None \<longrightarrow> ws = map (\<lambda>command. command @ [newline]) commands"
      "defers s3 = defers ?s2"
    by blast
  define ws1 where "ws1 = ?shebang # ws"
  from ws have tr3: "trace s3 = trace s @ EvTempFile (Inr tf) # map (EvWriteString tf) ws1"
    and pre3: "prefix ws1 (script_lines c commands)"
    and full3: "r3 = None \<longrightarrow> ws1 = script_lines c commands"
    and df3: "defers s3 = DeferRemove tf # defers s"
    by (simp_all add: script_lines_def ws1_def)
  show ?thesis
  proof (cases r3)
    case (Some e)
    with assms loop have "r = Inl (preparing e)" "s1 = s3"
      by (simp_all add: prepare_inline_def Let_def split_beta)
    with tr3 pre3 df3 show ?thesis
      by (intro exI [of _ ws1] exI [of _ "[]"]) auto
  next
    case None
    show ?thesis
    proof (cases "fst (Flush sys (world s3) tf)")
      case (Some e)
      with None assms loop have "r = Inl (preparing e)"
        "s1 = act (EvFlush tf) (snd (Flush sys (world s3) tf)) s3"
        by (simp_all add: prepare_inline_def Let_def split_beta)
      with tr3 pre3 df3 show ?thesis
        by (intro exI [of _ ws1] exI [of _ "[EvFlush tf]"]) auto
    next
      case ok: None
      let ?s4 = "act (EvFlush tf) (snd (Flush sys (world s3) tf)) s3"
      from ok None assms loop have "r = Inr (scripts @ [tf])"
        "s1 = act (EvClose tf) (Close sys (world ?s4) tf) ?s4"
        by (simp_all add: prepare_inline_def Let_def split_beta)
      with tr3 pre3 df3 full3 None show ?thesis
        by (intro exI [of _ ws1] exI [of _ "[EvFlush tf, EvClose tf]"]) auto
    qed
  qed
qed

subsection \<open>The run as a whole\<close>

lemma prepare_inline_events:
  assumes "prepare_inline sys c scripts s = (pr, s1)"
  shows "\<exists>evs. trace s1 = trace s @ evs \<and> (\<forall>e\<in>set evs. \<not> is_run e)"
proof (cases "Inline c")
  case None
  with prepare_inline_None [OF assms] show ?thesis by simp
next
  case (Some commands)
  show ?thesis
  proof (cases "fst (TempFile sys (world s))")
    case (Inl e)
    with prepare_inline_no_file [OF assms Some] show ?thesis by simp
  next
    case (Inr tf)
    from prepare_inline_file [OF assms Some Inr] obtain ws tail where
      "trace s1 = trace s @ EvTempFile (Inr tf) # map (EvWriteString tf) ws @ tail"
      "tail = [] \<or> tail = [EvFlush tf] \<or> tail = [EvFlush tf, EvClose tf]"
      by blast
    then show ?thesis by auto
  qed
qed

lemma prepare_inline_working:
  assumes "prepare_inline sys c scripts s = (Inr working, s1)"
  shows "working = scripts @
     (case Inline c of None \<Rightarrow> []
      | Some commands \<Rightarrow> (case fst (TempFile sys (world s)) of Inl e \<Rightarrow> [] | Inr tf \<Rightarrow> [tf]))"
proof (cases "Inline c")
  case None
  with prepare_inline_None [OF assms] show ?thesis by simp
next
  case (Some commands)
  show ?thesis
  proof (cases "fst (TempFile sys (world s))")
    case (Inl e)
    with prepare_inline_no_file [OF assms Some] show ?thesis by simp
  next
    case (Inr tf)
    from prepare_inline_file [OF assms Some Inr] Some Inr show ?thesis by auto
  qed
qed

text \<open>The two ways \<^verbatim>\<open>PostProcess\<close> ends: in the preparation, or after the loops.\<close>

lemma PostProcess_cases:
  assumes "PostProcess sys c artifact w = (c1, (a, k, err), s)"
    and "prepare_inline sys c (elems (Scripts c)) \<lparr>world = w, trace = [], defers = []\<rparr> = (pr, s1)"
  shows "c1 = c \<and>
    (case pr of
       Inl m \<Rightarrow> err = Some m \<and> a = None \<and> \<not> k \<and> trace s = trace s1 @ map event_of (defers s1)
     | Inr working \<Rightarrow>
         (\<exists>s2. loop_files sys (envVars_of c) working (Files artifact) s1 = (err, s2)
            \<and> trace s = trace s2 @ map event_of (defers s2)
            \<and> (err = None \<longrightarrow> a = Some artifact \<and> k = KeepInputArtifact c)
            \<and> (err \<noteq> None \<longrightarrow> a = None \<and> \<not> k)))"
proof (cases pr)
  case (Inl m)
  with assms show ?thesis
    by (auto simp: PostProcess_def Let_def leave_def trace_run_deferred)
next
  case (Inr working)
  obtain r s2 where loop: "loop_files sys (envVars_of c) working (Files artifact) s1 = (r, s2)"
    by (cases "loop_files sys (envVars_of c) working (Files artifact) s1")
  with Inr assms show ?thesis
    by (cases r) (auto simp: PostProcess_def Let_def leave_def trace_run_deferred)
qed

lemma split_unique:
  assumes "x \<notin> set A" and "x \<notin> set C" and "B @ x # D = A @ x # C"
  shows "B = A \<and> D = C"
  using assms
proof (induction A arbitrary: B)
  case Nil
  then show ?case by (cases B) auto
next
  case (Cons a A)
  then show ?case by (cases B) auto
qed

lemma run_not_deferred [simp]: "EvRun w argv env \<notin> event_of ` set ds"
proof
  assume "EvRun w argv env \<in> event_of ` set ds"
  then obtain d where "event_of d = EvRun w argv env" by auto
  then show False by (cases d) simp_all
qed

lemma run_not_quiet: "\<forall>e\<in>set evs. \<not> is_run e \<Longrightarrow> EvRun w argv env \<notin> set evs"
  by auto

lemma failed_is_run: "failed sys e \<Longrightarrow> is_run e"
  by (cases e) simp_all

lemma loop_event_kinds:
  "loop_event sys ev e \<Longrightarrow> \<not> is_temp e \<and> \<not> is_remove e \<and> \<not> is_cleanup e"
  by (cases e) simp_all

lemma written_loop_events: "\<forall>e\<in>set evs. loop_event sys ev e \<Longrightarrow> written name evs = []"
proof (induction evs)
  case Nil
  show ?case by simp
next
  case (Cons e evs)
  then show ?case by (cases e) simp_all
qed

lemma run_deferred_append:
  "run_deferred sys (xs @ ys) s = run_deferred sys ys (run_deferred sys xs s)"
  by (induction sys xs s rule: run_deferred.induct) simp_all

lemma steps_events: "steps sys ev r evs \<Longrightarrow> \<forall>e\<in>set evs. loop_event sys ev e"
  by (simp add: steps_def)

lemma temp_deferred: "filter is_temp (map event_of ds) = []"
  by (simp add: filter_empty_conv)

lemma remove_closes: "\<forall>d\<in>set ds. is_close d \<Longrightarrow> filter is_remove (map event_of ds) = []"
proof (induction ds)
  case Nil
  show ?case by simp
next
  case (Cons d ds)
  then show ?case by (cases d) simp_all
qed




text \<open>The commands run: a prefix of the pairs in nested order, all of them when no error is returned.\<close>

lemma PostProcess_runs:
  assumes "PostProcess sys c artifact w = (c1, (a, k, err), s)"
  shows "prefix (invocations (trace s))
           (map sh_c (List.product (Files artifact) (working_scripts sys c w)))
     \<and> (err = None \<longrightarrow> invocations (trace s) =
           map sh_c (List.product (Files artifact) (working_scripts sys c w)))"
proof -
  let ?s0 = "\<lparr>world = w, trace = [], defers = []\<rparr>"
  obtain pr s1 where prep: "prepare_inline sys c (elems (Scripts c)) ?s0 = (pr, s1)"
    by (cases "prepare_inline sys c (elems (Scripts c)) ?s0")
  from prepare_inline_events [OF prep] have quiet: "invocations (trace s1) = []"
    by (auto simp: no_run_invocations)
  note ends = PostProcess_cases [OF assms prep]
  show ?thesis
  proof (cases pr)
    case (Inl m)
    with ends quiet show ?thesis by simp
  next
    case (Inr working)
    with prepare_inline_working [of sys c "elems (Scripts c)" ?s0 working s1] prep
    have working: "working = working_scripts sys c w"
      by (simp add: working_scripts_def cong: option.case_cong sum.case_cong)
    from ends Inr obtain s2 where
      loop: "loop_files sys (envVars_of c) working (Files artifact) s1 = (err, s2)"
      and tr: "trace s = trace s2 @ map event_of (defers s2)"
      by auto
    from loop_files_invocations [OF loop] quiet tr working show ?thesis by auto
  qed
qed

subsection \<open>Runs of the concrete machine\<close>

lemma TrimSpace_Nil: "TrimSpace [] = []"
  by code_simp

lemma TrimSpace_ok: "TrimSpace [CHR ''o'', CHR ''k'', newline] = ''ok''"
  by code_simp

lemma TrimSpace_boom: "TrimSpace [CHR '' '', CHR ''b'', CHR ''o'', CHR ''o'', CHR ''m'', newline] = ''boom''"
  by code_simp

lemma machine_calls [simp]:
  "TempFile (machine bad) w = (Inr tmp_name, Suc w)"
  "WriteString (machine bad) w name d = (None, Suc w)"
  "Flush (machine bad) w name = (None, Suc w)"
  "Close (machine bad) w name = Suc w"
  "Remove (machine bad) w name = Suc w"
  "Open (machine bad) w path = (None, Suc w)"
  "Environ (machine bad) w = [''PATH=/bin'', ''NAME=ambient'']"
  "Run (machine bad) w argv env =
     (if last argv \<in> set bad
      then \<lparr>run_err = Some ''exit status 1'', out = [], errout = '' boom'' @ [newline]\<rparr>
      else \<lparr>run_err = None, out = ''ok'' @ [newline], errout = []\<rparr>, Suc w)"
  by (simp_all add: machine_def)

lemma machine_run_script:
  "run_script (machine bad) ev art path \<lparr>world = w, trace = tr, defers = ds\<rparr> =
     (if Join2 path art \<in> set bad
      then (Some ''Error executing script: boom'',
            \<lparr>world = Suc (Suc w),
             trace = tr @ before_run path art @
               [EvRun (Suc w) [''sh'', ''-c'', Join2 path art] ([''PATH=/bin'', ''NAME=ambient''] @ ev)],
             defers = DeferClose path # ds\<rparr>)
      else (None,
            \<lparr>world = Suc (Suc w),
             trace = tr @ before_run path art @
               EvRun (Suc w) [''sh'', ''-c'', Join2 path art] ([''PATH=/bin'', ''NAME=ambient''] @ ev)
               # after_run,
             defers = DeferClose path # ds\<rparr>))"
  by (simp add: run_script_def Let_def emit_def act_def push_defer_def before_run_def
      after_run_def TrimSpace_Nil TrimSpace_ok TrimSpace_boom)

lemma machine_write_commands:
  "write_commands (machine bad) tf commands \<lparr>world = w, trace = tr, defers = ds\<rparr> =
     (None, \<lparr>world = w + length commands,
             trace = tr @ map (\<lambda>command. EvWriteString tf (command @ [newline])) commands,
             defers = ds\<rparr>)"
proof (induction commands arbitrary: w tr)
  case Nil
  show ?case by simp
next
  case (Cons command commands)
  have "write_commands (machine bad) tf (command # commands) \<lparr>world = w, trace = tr, defers = ds\<rparr> =
     write_commands (machine bad) tf commands
       \<lparr>world = Suc w, trace = tr @ [EvWriteString tf (command @ [newline])], defers = ds\<rparr>"
    by (simp add: act_def)
  then show ?case by (simp add: Cons.IH)
qed

lemma machine_prepare_inline:
  "prepare_inline (machine bad) c scripts \<lparr>world = w, trace = tr, defers = ds\<rparr> =
     (case Inline c of
        None \<Rightarrow> (Inr scripts, \<lparr>world = w, trace = tr, defers = ds\<rparr>)
      | Some commands \<Rightarrow>
          (Inr (scripts @ [tmp_name]),
           \<lparr>world = w + length commands + 4,
            trace = tr @ EvTempFile (Inr tmp_name)
                      # map (EvWriteString tmp_name) (script_lines c commands)
                      @ [EvFlush tmp_name, EvClose tmp_name],
            defers = DeferRemove tmp_name # ds\<rparr>))"
  by (cases "Inline c")
     (simp_all add: prepare_inline_def Let_def act_def push_defer_def machine_write_commands
      script_lines_def comp_def)

lemma run_collapse:
  "p = (fst p, (fst (fst (snd p)), fst (snd (fst (snd p))), snd (snd (fst (snd p)))), snd (snd p))"
  by simp

lemmas machine_eval = PostProcess_def Let_def machine_prepare_inline machine_run_script
  leave_def act_def machine_env_def Join2_def

lemma run_two_scripts:
  "PostProcess (machine []) two_scripts two_files 0 =
     (two_scripts, (Some two_files, True, None),
      \<lparr>world = 12,
       trace =
         before_run ''S1'' ''A'' @ EvRun 1 [''sh'', ''-c'', ''S1 A''] (machine_env two_scripts) # after_run @
         before_run ''S2'' ''A'' @ EvRun 3 [''sh'', ''-c'', ''S2 A''] (machine_env two_scripts) # after_run @
         before_run ''S1'' ''B'' @ EvRun 5 [''sh'', ''-c'', ''S1 B''] (machine_env two_scripts) # after_run @
         before_run ''S2'' ''B'' @ EvRun 7 [''sh'', ''-c'', ''S2 B''] (machine_env two_scripts) # after_run @
         [EvClose ''S2'', EvClose ''S1'', EvClose ''S2'', EvClose ''S1''],
       defers = []\<rparr>)"
  by (simp add: machine_eval two_scripts_def two_files_def blank_config_def)

lemma run_S1_fails:
  "PostProcess (machine [''S1 A'']) two_scripts two_files 0 =
     (two_scripts, (None, False, Some ''Error executing script: boom''),
      \<lparr>world = 3,
       trace = before_run ''S1'' ''A'' @
         EvRun 1 [''sh'', ''-c'', ''S1 A''] (machine_env two_scripts) # [EvClose ''S1''],
       defers = []\<rparr>)"
  by (simp add: machine_eval two_scripts_def two_files_def blank_config_def)


lemma configured_inline:
  "Configure every_file None inline_config =
     (blank_config\<lparr>Inline := Some [''echo hi''], InlineShebang := ''/bin/sh -e'',
        Scripts := Some [], Vars := Some []\<rparr>, None)"
proof -
  have "fst (Configure every_file None inline_config) =
     blank_config\<lparr>Inline := Some [''echo hi''], InlineShebang := ''/bin/sh -e'',
        Scripts := Some [], Vars := Some []\<rparr>"
    by (simp add: Configure_config inline_config_def blank_config_def inline_given_def
        resolved_scripts_def elems_def)
  moreover have "snd (Configure every_file None inline_config) = None"
    by (simp add: Configure_errors all_errors_def choice_errors_def inline_config_def
        blank_config_def inline_given_def scripts_given_def resolved_scripts_def elems_def
        script_errors_def every_file_def var_errors_def)
  ultimately show ?thesis by (metis prod.collapse)
qed

lemma normalize_quoted:
  "normalize_var (''NAME=O'' @ [squote] @ ''Brien'') = ''NAME=O'' @ escaped_quote @ ''Brien''"
  "\<not> malformed (''NAME=O'' @ [squote] @ ''Brien'')"
  by code_simp+

lemma configured_quoted:
  "Configure every_file None quoted_config =
     (blank_config\<lparr>InlineShebang := ''/bin/sh -e'', Script := ''a.sh'', Scripts := Some [''a.sh''],
        Vars := Some [''NAME=O'' @ escaped_quote @ ''Brien'']\<rparr>, None)"
proof -
  have "fst (Configure every_file None quoted_config) =
     blank_config\<lparr>InlineShebang := ''/bin/sh -e'', Script := ''a.sh'', Scripts := Some [''a.sh''],
        Vars := Some [''NAME=O'' @ escaped_quote @ ''Brien'']\<rparr>"
    using normalize_quoted
    by (simp add: Configure_config quoted_config_def blank_config_def inline_given_def
        resolved_scripts_def elems_def)
  moreover have "snd (Configure every_file None quoted_config) = None"
    using normalize_quoted
    by (simp add: Configure_errors all_errors_def choice_errors_def quoted_config_def
        blank_config_def inline_given_def scripts_given_def resolved_scripts_def elems_def
        script_errors_def every_file_def var_errors_def)
  ultimately show ?thesis by (metis prod.collapse)
qed


section \<open>What PostProcess guarantees\<close>

text \<open>
  C1. The commands \<^verbatim>\<open>PostProcess\<close> runs are, in order, those of the artifact's files paired
  with the working list of scripts, files in the outer loop and scripts in the inner one:
  always a prefix of that sequence, and the whole of it when no error is returned.
\<close>

theorem PostProcess_order:
  assumes "PostProcess sys c artifact w = (c1, (a, k, err), s)"
  shows "prefix (invocations (trace s))
           (map sh_c (List.product (Files artifact) (working_scripts sys c w)))
     \<and> (err = None \<longrightarrow> invocations (trace s) =
           map sh_c (List.product (Files artifact) (working_scripts sys c w)))"
  using assms by (rule PostProcess_runs)

theorem PostProcess_order_witness:
  "PostProcess (machine []) two_scripts two_files 0 =
     (two_scripts, (Some two_files, True, None),
      snd (snd (PostProcess (machine []) two_scripts two_files 0)))
   \<and> Files two_files = [''A'', ''B'']
   \<and> working_scripts (machine []) two_scripts 0 = [''S1'', ''S2'']
   \<and> invocations (trace (snd (snd (PostProcess (machine []) two_scripts two_files 0)))) =
       [[''sh'', ''-c'', ''S1 A''], [''sh'', ''-c'', ''S2 A''],
        [''sh'', ''-c'', ''S1 B''], [''sh'', ''-c'', ''S2 B'']]"
proof -
  have run: "PostProcess (machine []) two_scripts two_files 0 =
     (two_scripts, (Some two_files, True, None),
      snd (snd (PostProcess (machine []) two_scripts two_files 0)))"
    by (simp add: run_two_scripts)
  have files: "Files two_files = [''A'', ''B'']"
    by (simp add: two_files_def)
  have working: "working_scripts (machine []) two_scripts 0 = [''S1'', ''S2'']"
    by (simp add: working_scripts_def two_scripts_def blank_config_def)
  have pairs: "map sh_c (List.product [''A'', ''B''] [''S1'', ''S2'']) =
       [[''sh'', ''-c'', ''S1 A''], [''sh'', ''-c'', ''S2 A''],
        [''sh'', ''-c'', ''S1 B''], [''sh'', ''-c'', ''S2 B'']]"
    by (simp add: sh_c_def Join2_def)
  from PostProcess_order [OF run] files working pairs
  have "invocations (trace (snd (snd (PostProcess (machine []) two_scripts two_files 0)))) =
       [[''sh'', ''-c'', ''S1 A''], [''sh'', ''-c'', ''S2 A''],
        [''sh'', ''-c'', ''S1 B''], [''sh'', ''-c'', ''S2 B'']]"
    by simp
  with run files working show ?thesis by (simp only: simp_thms)
qed

text \<open>
  C2, as the code has it. A run that failed is the last thing \<^verbatim>\<open>PostProcess\<close> did but for
  the deferred calls: no script is opened or run after it. The error returned is built from
  what that one process wrote to its standard error, with the white space at both ends
  removed; the artifact returned is nil and the flag false.
\<close>

theorem PostProcess_first_failure:
  assumes "PostProcess sys c artifact w = (c1, (a, k, err), s)"
    and "trace s = before @ EvRun w1 argv env # after"
    and "run_err (fst (Run sys w1 argv env)) \<noteq> None"
  shows "err = Some (''Error executing script: '' @ TrimSpace (errout (fst (Run sys w1 argv env))))
     \<and> a = None \<and> k = False \<and> invocations after = [] \<and> (\<forall>e\<in>set after. is_cleanup e)"
proof -
  let ?s0 = "\<lparr>world = w, trace = [], defers = []\<rparr>"
  let ?x = "EvRun w1 argv env"
  have x: "failed sys ?x" "is_run ?x" using assms(3) by simp_all
  from assms(2) have mem: "?x \<in> set (trace s)" by simp
  obtain pr s1 where prep: "prepare_inline sys c (elems (Scripts c)) ?s0 = (pr, s1)"
    by (cases "prepare_inline sys c (elems (Scripts c)) ?s0")
  from prepare_inline_events [OF prep] have "\<forall>e\<in>set (trace s1). \<not> is_run e"
    by auto
  then have quiet: "EvRun w1 argv env \<notin> set (trace s1)"
    by (rule run_not_quiet)
  note ends = PostProcess_cases [OF assms(1) prep]
  show ?thesis
  proof (cases pr)
    case (Inl m)
    with ends have "trace s = trace s1 @ map event_of (defers s1)" by simp
    with mem quiet show ?thesis by simp
  next
    case (Inr working)
    with ends obtain s2 where
      loop: "loop_files sys (envVars_of c) working (Files artifact) s1 = (err, s2)"
      and tr: "trace s = trace s2 @ map event_of (defers s2)"
      and res: "err \<noteq> None \<longrightarrow> a = None \<and> \<not> k"
      by auto
    from loop_files_steps [OF loop] obtain evs ds where
      evs: "trace s2 = trace s1 @ evs" "steps sys (envVars_of c) err evs"
      by blast
    from mem tr evs(1) quiet have "?x \<in> set evs" by simp
    with x(1) evs(2) obtain evs0 e where
      last: "evs = evs0 @ [e]" "\<forall>e0\<in>set evs0. \<not> failed sys e0" "failed sys e"
        "err = Some (executing sys e)"
      by (cases err) (auto simp: steps_def)
    with \<open>?x \<in> set evs\<close> x(1) have e: "e = ?x" by auto
    have "?x \<notin> set (trace s1 @ evs0)" using quiet last(2) x by auto
    moreover have "?x \<notin> set (map event_of (defers s2))" by simp
    moreover from assms(2) tr evs(1) last(1) e
    have "before @ ?x # after = (trace s1 @ evs0) @ ?x # map event_of (defers s2)" by simp
    ultimately have "after = map event_of (defers s2)" by (metis split_unique)
    with last(4) e res show ?thesis by simp
  qed
qed

theorem PostProcess_first_failure_witness:
  "trace (snd (snd (PostProcess (machine [''S1 A'']) two_scripts two_files 0))) =
     before_run ''S1'' ''A'' @
     EvRun 1 [''sh'', ''-c'', ''S1 A''] (machine_env two_scripts) # [EvClose ''S1'']
   \<and> run_err (fst (Run (machine [''S1 A'']) 1 [''sh'', ''-c'', ''S1 A'']
         (machine_env two_scripts))) = Some ''exit status 1''
   \<and> fst (snd (PostProcess (machine [''S1 A'']) two_scripts two_files 0)) =
       (None, False, Some (''Error executing script: '' @ TrimSpace ('' boom'' @ [newline])))
   \<and> invocations [EvClose ''S1'' :: nat event] = []
   \<and> is_cleanup (EvClose ''S1'' :: nat event)"
proof -
  let ?run = "PostProcess (machine [''S1 A'']) two_scripts two_files 0"
  have tr: "trace (snd (snd ?run)) =
     before_run ''S1'' ''A'' @
     EvRun 1 [''sh'', ''-c'', ''S1 A''] (machine_env two_scripts) # [EvClose ''S1'']"
    by (simp add: run_S1_fails)
  have bad: "run_err (fst (Run (machine [''S1 A'']) 1 [''sh'', ''-c'', ''S1 A'']
         (machine_env two_scripts))) = Some ''exit status 1''"
    by simp
  then have "run_err (fst (Run (machine [''S1 A'']) 1 [''sh'', ''-c'', ''S1 A'']
         (machine_env two_scripts))) \<noteq> None"
    by simp
  from PostProcess_first_failure [OF run_collapse tr this]
  have "fst (snd ?run) =
       (None, False, Some (''Error executing script: '' @ TrimSpace ('' boom'' @ [newline])))"
    "invocations [EvClose ''S1'' :: nat event] = []" "is_cleanup (EvClose ''S1'' :: nat event)"
    by (simp_all add: prod_eq_iff)
  with tr bad show ?thesis by (simp only: simp_thms)
qed

text \<open>
  C2, as stated, fails: the text a failed process wrote to its standard error is
  not always part of the error returned. Here the process wrote a space, \<^verbatim>\<open>boom\<close> and a
  newline, and the error ends with \<^verbatim>\<open>boom\<close>.
\<close>

theorem stderr_trimmed_counterexample:
  "fst (snd (PostProcess (machine [''S1 A'']) two_scripts two_files 0)) =
     (None, False, Some ''Error executing script: boom'')
   \<and> EvRun 1 [''sh'', ''-c'', ''S1 A''] (machine_env two_scripts)
       \<in> set (trace (snd (snd (PostProcess (machine [''S1 A'']) two_scripts two_files 0))))
   \<and> run_err (fst (Run (machine [''S1 A'']) 1 [''sh'', ''-c'', ''S1 A'']
         (machine_env two_scripts))) = Some ''exit status 1''
   \<and> errout (fst (Run (machine [''S1 A'']) 1 [''sh'', ''-c'', ''S1 A'']
         (machine_env two_scripts))) = '' boom'' @ [newline]
   \<and> \<not> sublist ('' boom'' @ [newline]) ''Error executing script: boom''"
proof -
  have "\<not> sublist ('' boom'' @ [newline]) ''Error executing script: boom''"
    by code_simp
  then show ?thesis by (simp add: run_S1_fails)
qed

text \<open>
  C5. Every process that \<^verbatim>\<open>PostProcess\<close> starts gets the ambient environment, then
  \<^verbatim>\<open>PACKER_BUILD_NAME\<close> and \<^verbatim>\<open>PACKER_BUILDER_TYPE\<close> in single quotes, then the configured
  variables, which after a \<^verbatim>\<open>Configure\<close> without error are the normalized ones. Where the
  last entry for a key wins, a key that these explicit entries set has their value,
  whatever the ambient environment says.
\<close>

theorem subprocess_environment:
  assumes "PostProcess sys c artifact w = (c1, (a, k, err), s)"
    and "EvRun w1 argv env \<in> set (trace s)"
  shows "env = Environ sys w1 @
           [''PACKER_BUILD_NAME='' @ [squote] @ PackerBuildName c @ [squote],
            ''PACKER_BUILDER_TYPE='' @ [squote] @ PackerBuilderType c @ [squote]] @ elems (Vars c)
     \<and> (\<forall>key v. getenv_last
           ([''PACKER_BUILD_NAME='' @ [squote] @ PackerBuildName c @ [squote],
             ''PACKER_BUILDER_TYPE='' @ [squote] @ PackerBuilderType c @ [squote]] @ elems (Vars c))
           key = Some v \<longrightarrow> getenv_last env key = Some v)
     \<and> (\<forall>stat c0. Configure stat None c0 = (c, None) \<longrightarrow>
           elems (Vars c) = map normalize_var (elems (Vars c0)))"
proof -
  let ?s0 = "\<lparr>world = w, trace = [], defers = []\<rparr>"
  let ?x = "EvRun w1 argv env"
  obtain pr s1 where prep: "prepare_inline sys c (elems (Scripts c)) ?s0 = (pr, s1)"
    by (cases "prepare_inline sys c (elems (Scripts c)) ?s0")
  from prepare_inline_events [OF prep] have "\<forall>e\<in>set (trace s1). \<not> is_run e"
    by auto
  then have quiet: "EvRun w1 argv env \<notin> set (trace s1)"
    by (rule run_not_quiet)
  note ends = PostProcess_cases [OF assms(1) prep]
  have "env = Environ sys w1 @ envVars_of c"
  proof (cases pr)
    case (Inl m)
    with ends have "trace s = trace s1 @ map event_of (defers s1)" by simp
    with assms(2) quiet show ?thesis by simp
  next
    case (Inr working)
    with ends obtain s2 where
      loop: "loop_files sys (envVars_of c) working (Files artifact) s1 = (err, s2)"
      and tr: "trace s = trace s2 @ map event_of (defers s2)"
      by auto
    from loop_files_steps [OF loop] obtain evs ds where
      evs: "trace s2 = trace s1 @ evs" "steps sys (envVars_of c) err evs"
      by blast
    from assms(2) tr evs(1) quiet have "?x \<in> set evs" by simp
    with evs(2) have "loop_event sys (envVars_of c) ?x" unfolding steps_def by blast
    then show ?thesis by simp
  qed
  then have env: "env = Environ sys w1 @
           [''PACKER_BUILD_NAME='' @ [squote] @ PackerBuildName c @ [squote],
            ''PACKER_BUILDER_TYPE='' @ [squote] @ PackerBuilderType c @ [squote]] @ elems (Vars c)"
    by (simp add: envVars_of_def)
  have last_wins: "getenv_last (ambient @ explicit) key = Some v"
    if "getenv_last explicit key = Some v" for ambient explicit key v
    using that by (simp add: getenv_last_def map_filter_def map_add_find_right)
  have normal: "elems (Vars c) = map normalize_var (elems (Vars c0))"
    if "Configure stat None c0 = (c, None)" for stat c0
  proof -
    from that have "snd (Configure stat None c0) = None" "c = fst (Configure stat None c0)"
      by simp_all
    then have "filter malformed (elems (Vars c0)) = []"
      and vars: "elems (Vars c) =
        map (\<lambda>kv. if malformed kv then kv else normalize_var kv) (elems (Vars c0))"
      by (simp_all add: Configure_errors Configure_config all_errors_def var_errors_def
          split: if_splits)
    then have "\<forall>kv\<in>set (elems (Vars c0)). \<not> malformed kv"
      by (simp add: filter_empty_conv)
    with vars show ?thesis by simp
  qed
  from env last_wins normal show ?thesis by (simp only:) blast
qed

theorem subprocess_environment_witness:
  "Configure every_file None quoted_config =
     (fst (Configure every_file None quoted_config), None)
   \<and> EvRun 1 [''sh'', ''-c'', ''a.sh A'']
        ([''PATH=/bin'', ''NAME=ambient'',
          ''PACKER_BUILD_NAME='' @ [squote] @ ''vm'' @ [squote],
          ''PACKER_BUILDER_TYPE='' @ [squote] @ ''qemu'' @ [squote],
          ''NAME=O'' @ escaped_quote @ ''Brien''])
       \<in> set (trace (snd (snd (PostProcess (machine [])
             (fst (Configure every_file None quoted_config)) two_files 0))))
   \<and> Environ (machine []) 1 = [''PATH=/bin'', ''NAME=ambient'']
   \<and> getenv_last [''PATH=/bin'', ''NAME=ambient''] ''NAME'' = Some ''ambient''
   \<and> getenv_last
        ([''PATH=/bin'', ''NAME=ambient'',
          ''PACKER_BUILD_NAME='' @ [squote] @ ''vm'' @ [squote],
          ''PACKER_BUILDER_TYPE='' @ [squote] @ ''qemu'' @ [squote],
          ''NAME=O'' @ escaped_quote @ ''Brien'']) ''NAME'' = Some (''O'' @ escaped_quote @ ''Brien'')
   \<and> elems (Vars (fst (Configure every_file None quoted_config))) =
       map normalize_var (elems (Vars quoted_config))"
proof -
  let ?c = "fst (Configure every_file None quoted_config)"
  let ?env = "[''PATH=/bin'', ''NAME=ambient'',
          ''PACKER_BUILD_NAME='' @ [squote] @ ''vm'' @ [squote],
          ''PACKER_BUILDER_TYPE='' @ [squote] @ ''qemu'' @ [squote],
          ''NAME=O'' @ escaped_quote @ ''Brien'']"
  have conf: "Configure every_file None quoted_config = (?c, None)"
    by (simp add: configured_quoted)
  have c: "PackerBuildName ?c = ''vm''" "PackerBuilderType ?c = ''qemu''"
    "elems (Vars ?c) = [''NAME=O'' @ escaped_quote @ ''Brien'']"
    by (simp_all add: configured_quoted blank_config_def)
  have mem: "EvRun 1 [''sh'', ''-c'', ''a.sh A''] ?env
       \<in> set (trace (snd (snd (PostProcess (machine []) ?c two_files 0))))"
    by (simp add: configured_quoted machine_eval two_files_def blank_config_def before_run_def
        after_run_def envVars_of_def)
  have ambient: "getenv_last [''PATH=/bin'', ''NAME=ambient''] ''NAME'' = Some ''ambient''"
    by code_simp
  have explicit: "getenv_last
        [''PACKER_BUILD_NAME='' @ [squote] @ ''vm'' @ [squote],
         ''PACKER_BUILDER_TYPE='' @ [squote] @ ''qemu'' @ [squote],
         ''NAME=O'' @ escaped_quote @ ''Brien''] ''NAME'' = Some (''O'' @ escaped_quote @ ''Brien'')"
    by code_simp
  note inst = subprocess_environment [OF run_collapse mem]
  from inst c explicit
  have "getenv_last ?env ''NAME'' = Some (''O'' @ escaped_quote @ ''Brien'')"
    by simp
  moreover from inst conf
  have "elems (Vars ?c) = map normalize_var (elems (Vars quoted_config))"
    by blast
  ultimately show ?thesis using conf mem ambient by simp
qed




text \<open>
  C7. After \<^verbatim>\<open>Configure\<close>, when inline commands are given and the preparation succeeds,
  what \<^verbatim>\<open>PostProcess\<close> writes to the temporary file is \<^verbatim>\<open>#!\<close>, the shebang value
  (\<^verbatim>\<open>/bin/sh -e\<close> when none was configured) and a newline, then each inline command with a
  newline, in the order of the configuration, and nothing else. The working list is the
  configured scripts and then the file's path; \<^verbatim>\<open>p.config\<close> is as it was.
\<close>

theorem inline_script_content:
  assumes "Configure stat None c0 = (c, cerr)"
    and "Inline c = Some commands"
    and "prepare_inline sys c (elems (Scripts c)) \<lparr>world = w, trace = [], defers = []\<rparr> = (Inr working, s1)"
    and "PostProcess sys c artifact w = (c1, (a, k, err), s)"
  shows "\<exists>tf. fst (TempFile sys w) = Inr tf
     \<and> written tf (trace s) =
         (''#!'' @ (if InlineShebang c0 = [] then ''/bin/sh -e'' else InlineShebang c0) @ [newline])
         # map (\<lambda>command. command @ [newline]) commands
     \<and> working = elems (Scripts c) @ [tf]
     \<and> working = working_scripts sys c w
     \<and> Inline c0 = Some commands \<and> commands \<noteq> []
     \<and> c1 = c"
proof -
  let ?s0 = "\<lparr>world = w, trace = [], defers = []\<rparr>"
  from assms(1) have c: "c = fst (Configure stat None c0)" by simp
  have shebang: "InlineShebang c = (if InlineShebang c0 = [] then ''/bin/sh -e'' else InlineShebang c0)"
    unfolding c Configure_config by simp
  from assms(2) have inline: "Inline c0 = Some commands" "commands \<noteq> []"
    unfolding c Configure_config by (auto simp: inline_given_def split: if_splits)
  obtain tf where tf: "fst (TempFile sys (world ?s0)) = Inr tf"
    using prepare_inline_no_file [OF assms(3) assms(2)]
    by (cases "fst (TempFile sys (world ?s0))") auto
  from prepare_inline_file [OF assms(3) assms(2) tf] obtain ws tail where
    prep: "trace s1 = EvTempFile (Inr tf) # map (EvWriteString tf) ws @ tail"
      "tail = [EvFlush tf, EvClose tf]" "ws = script_lines c commands"
      "working = elems (Scripts c) @ [tf]"
    by auto
  from PostProcess_cases [OF assms(4) assms(3)] obtain s2 where
    loop: "loop_files sys (envVars_of c) working (Files artifact) s1 = (err, s2)"
    and tr: "trace s = trace s2 @ map event_of (defers s2)" and same: "c1 = c"
    by auto
  from loop_files_steps [OF loop] obtain evs ds where
    evs: "trace s2 = trace s1 @ evs" "steps sys (envVars_of c) err evs"
    by blast
  from evs(2) have "written tf evs = []"
    by (intro written_loop_events steps_events)
  with tr evs(1) prep(1,2,3) have "written tf (trace s) = script_lines c commands"
    by simp
  with shebang have "written tf (trace s) =
         (''#!'' @ (if InlineShebang c0 = [] then ''/bin/sh -e'' else InlineShebang c0) @ [newline])
         # map (\<lambda>command. command @ [newline]) commands"
    by (simp add: script_lines_def)
  moreover from tf assms(2) prep(4) have "working = working_scripts sys c w"
    by (simp add: working_scripts_def)
  ultimately show ?thesis using tf prep(4) inline same by simp
qed

theorem inline_script_content_witness:
  "Inline (fst (Configure every_file None inline_config)) = Some [''echo hi'']
   \<and> InlineShebang inline_config = []
   \<and> fst (TempFile (machine []) 0) = Inr tmp_name
   \<and> written tmp_name (trace (snd (snd (PostProcess (machine [])
         (fst (Configure every_file None inline_config)) two_files 0)))) =
       [''#!/bin/sh -e'' @ [newline], ''echo hi'' @ [newline]]
   \<and> working_scripts (machine []) (fst (Configure every_file None inline_config)) 0 = [tmp_name]
   \<and> fst (PostProcess (machine []) (fst (Configure every_file None inline_config)) two_files 0) =
       fst (Configure every_file None inline_config)"
proof -
  let ?c = "fst (Configure every_file None inline_config)"
  let ?s0 = "\<lparr>world = 0, trace = [], defers = []\<rparr> :: nat frame"
  have inline: "Inline ?c = Some [''echo hi'']" and scripts: "elems (Scripts ?c) = []"
    by (simp_all add: configured_inline blank_config_def)
  have shebang: "InlineShebang inline_config = []"
    by (simp add: inline_config_def blank_config_def)
  have tf: "fst (TempFile (machine []) 0) = Inr tmp_name"
    by simp
  have prep: "prepare_inline (machine []) ?c (elems (Scripts ?c)) ?s0 =
      (Inr (elems (Scripts ?c) @ [tmp_name]),
       snd (prepare_inline (machine []) ?c (elems (Scripts ?c)) ?s0))"
    by (simp add: machine_prepare_inline inline)
  from inline_script_content [OF prod.collapse [symmetric] inline prep
      run_collapse [of "PostProcess (machine []) ?c two_files 0"]] tf shebang scripts
  have "written tmp_name (trace (snd (snd (PostProcess (machine []) ?c two_files 0)))) =
       [''#!/bin/sh -e'' @ [newline], ''echo hi'' @ [newline]]"
    "working_scripts (machine []) ?c 0 = [tmp_name]"
    "fst (PostProcess (machine []) ?c two_files 0) = ?c"
    by auto
  with inline shebang tf show ?thesis by (simp only: simp_thms)
qed

text \<open>
  C8. With inline commands \<^verbatim>\<open>PostProcess\<close> asks for a temporary file exactly once. When the
  file is created, removing it is the last thing \<^verbatim>\<open>PostProcess\<close> does, whatever it returns,
  and it is removed once; when it cannot be created, nothing else happens.
\<close>

theorem temp_script_removed:
  assumes "PostProcess sys c artifact w = (c1, (a, k, err), s)"
    and "Inline c = Some commands"
  shows "length (filter is_temp (trace s)) = 1
     \<and> (\<forall>tf. fst (TempFile sys w) = Inr tf \<longrightarrow>
            hd (trace s) = EvTempFile (Inr tf) \<and> last (trace s) = EvRemove tf
          \<and> filter is_remove (trace s) = [EvRemove tf]
          \<and> (\<exists>w2. world s = Remove sys w2 tf))
     \<and> (\<forall>e. fst (TempFile sys w) = Inl e \<longrightarrow> trace s = [EvTempFile (Inl e)])"
proof -
  let ?s0 = "\<lparr>world = w, trace = [], defers = []\<rparr>"
  obtain pr s1 where prep: "prepare_inline sys c (elems (Scripts c)) ?s0 = (pr, s1)"
    by (cases "prepare_inline sys c (elems (Scripts c)) ?s0")
  note ends = PostProcess_cases [OF assms(1) prep]
  show ?thesis
  proof (cases "fst (TempFile sys w)")
    case (Inl e)
    with prepare_inline_no_file [OF prep assms(2), of e]
    have "pr = Inl (preparing e)" "trace s1 = [EvTempFile (Inl e)]" "defers s1 = []"
      by simp_all
    with ends have "trace s = [EvTempFile (Inl e)]" by simp
    with Inl show ?thesis by simp
  next
    case (Inr tf)
    then have tf: "fst (TempFile sys (world ?s0)) = Inr tf" by simp
    from prepare_inline_file [OF prep assms(2) tf] obtain ws tail where
      s1: "trace s1 = EvTempFile (Inr tf) # map (EvWriteString tf) ws @ tail"
        "tail = [] \<or> tail = [EvFlush tf] \<or> tail = [EvFlush tf, EvClose tf]"
        "defers s1 = [DeferRemove tf]"
      by auto
    have ws: "filter is_temp (map (EvWriteString tf) ws) = []"
      "filter is_remove (map (EvWriteString tf) ws) = []"
      by (induction ws) simp_all
    from s1(2) have tail: "filter is_temp tail = []" "filter is_remove tail = []"
      by auto
    obtain evs ds sx where
      shape: "trace s = trace s1 @ evs @ map event_of ds @ [EvRemove tf]"
        "\<forall>e\<in>set evs. loop_event sys (envVars_of c) e" "\<forall>d\<in>set ds. is_close d"
        "s = run_deferred sys (ds @ [DeferRemove tf]) sx"
    proof (cases pr)
      case (Inl m)
      with ends s1(3) have "trace s = trace s1 @ [] @ map event_of [] @ [EvRemove tf]"
        "s = run_deferred sys ([] @ [DeferRemove tf]) (s1\<lparr>defers := []\<rparr>)"
        using assms(1) prep by (simp_all add: PostProcess_def Let_def leave_def)
      then show ?thesis using that [of "[]" "[]" "s1\<lparr>defers := []\<rparr>"] by simp
    next
      case (Inr working)
      with ends obtain s2 where
        loop: "loop_files sys (envVars_of c) working (Files artifact) s1 = (err, s2)"
        and tr: "trace s = trace s2 @ map event_of (defers s2)"
        by auto
      from loop_files_steps [OF loop] obtain evs ds where
        evs: "trace s2 = trace s1 @ evs" "defers s2 = ds @ defers s1"
          "\<forall>d\<in>set ds. is_close d" "steps sys (envVars_of c) err evs"
        by blast
      from assms(1) prep Inr loop have "s = run_deferred sys (defers s2) (s2\<lparr>defers := []\<rparr>)"
        by (cases err) (simp_all add: PostProcess_def Let_def leave_def)
      with tr evs s1(3) show ?thesis
        using that [of evs ds "s2\<lparr>defers := []\<rparr>"] steps_events [OF evs(4)] by simp
    qed
    from shape(2) have evs: "filter is_temp evs = []" "filter is_remove evs = []"
      by (auto simp: filter_empty_conv dest: loop_event_kinds)
    note ds = temp_deferred [of ds] remove_closes [OF shape(3)]
    from shape(1) s1(1) ws tail evs ds
    have "length (filter is_temp (trace s)) = 1" "hd (trace s) = EvTempFile (Inr tf)"
      "last (trace s) = EvRemove tf" "filter is_remove (trace s) = [EvRemove tf]"
      by simp_all
    moreover from shape(4) have "world s = Remove sys (world (run_deferred sys ds sx)) tf"
      by (simp add: run_deferred_append)
    then have "\<exists>w2. world s = Remove sys w2 tf" by (rule exI)
    ultimately show ?thesis using Inr by simp
  qed
qed

theorem temp_script_removed_witness:
  "Inline (fst (Configure every_file None inline_config)) = Some [''echo hi'']
   \<and> fst (TempFile (machine [Join2 tmp_name ''B'']) 0) = Inr tmp_name
   \<and> fst (snd (PostProcess (machine [Join2 tmp_name ''B''])
         (fst (Configure every_file None inline_config)) two_files 0)) =
       (None, False, Some ''Error executing script: boom'')
   \<and> length (filter is_temp (trace (snd (snd (PostProcess (machine [Join2 tmp_name ''B''])
         (fst (Configure every_file None inline_config)) two_files 0))))) = 1
   \<and> last (trace (snd (snd (PostProcess (machine [Join2 tmp_name ''B''])
         (fst (Configure every_file None inline_config)) two_files 0)))) = EvRemove tmp_name
   \<and> filter is_remove (trace (snd (snd (PostProcess (machine [Join2 tmp_name ''B''])
         (fst (Configure every_file None inline_config)) two_files 0)))) = [EvRemove tmp_name]"
proof -
  let ?c = "fst (Configure every_file None inline_config)"
  let ?run = "PostProcess (machine [Join2 tmp_name ''B'']) ?c two_files 0"
  have inline: "Inline ?c = Some [''echo hi'']"
    by (simp add: configured_inline blank_config_def)
  have tf: "fst (TempFile (machine [Join2 tmp_name ''B'']) 0) = Inr tmp_name"
    by simp
  have res: "fst (snd ?run) = (None, False, Some ''Error executing script: boom'')"
    by (simp add: configured_inline machine_eval two_files_def blank_config_def)
  from temp_script_removed [OF run_collapse [of ?run] inline] tf
  have "length (filter is_temp (trace (snd (snd ?run)))) = 1"
    "last (trace (snd (snd ?run))) = EvRemove tmp_name"
    "filter is_remove (trace (snd (snd ?run))) = [EvRemove tmp_name]"
    by blast+
  with inline tf res show ?thesis by (simp only: simp_thms)
qed

text \<open>
  C10. When \<^verbatim>\<open>PostProcess\<close> returns no error it returns the artifact it was given and the
  configured \<^verbatim>\<open>keep_input_artifact\<close> flag; when it returns an error it returns a nil
  artifact and false.
\<close>

theorem PostProcess_result:
  assumes "PostProcess sys c artifact w = (c1, (a, k, err), s)"
  shows "(err = None \<longrightarrow> a = Some artifact \<and> k = KeepInputArtifact c)
     \<and> (err \<noteq> None \<longrightarrow> a = None \<and> k = False)"
proof -
  let ?s0 = "\<lparr>world = w, trace = [], defers = []\<rparr>"
  obtain pr s1 where prep: "prepare_inline sys c (elems (Scripts c)) ?s0 = (pr, s1)"
    by (cases "prepare_inline sys c (elems (Scripts c)) ?s0")
  from PostProcess_cases [OF assms prep] show ?thesis
    by (cases pr) auto
qed

theorem PostProcess_result_witness:
  "PostProcess (machine []) two_scripts two_files 0 =
     (two_scripts, (Some two_files, KeepInputArtifact two_scripts, None),
      snd (snd (PostProcess (machine []) two_scripts two_files 0)))
   \<and> PostProcess (machine [''S1 A'']) two_scripts two_files 0 =
     (two_scripts, (None, False, Some ''Error executing script: boom''),
      snd (snd (PostProcess (machine [''S1 A'']) two_scripts two_files 0)))"
proof -
  let ?ok = "PostProcess (machine []) two_scripts two_files 0"
  let ?bad = "PostProcess (machine [''S1 A'']) two_scripts two_files 0"
  have ok: "fst ?ok = two_scripts" "snd (snd (fst (snd ?ok))) = None"
    by (simp_all add: run_two_scripts)
  have bad: "fst ?bad = two_scripts"
    "snd (snd (fst (snd ?bad))) = Some ''Error executing script: boom''"
    by (simp_all add: run_S1_fails)
  from PostProcess_result [OF run_collapse [of ?ok]] ok
  have "fst (snd ?ok) = (Some two_files, KeepInputArtifact two_scripts, None)"
    by (simp add: prod_eq_iff)
  moreover from PostProcess_result [OF run_collapse [of ?bad]] bad
  have "fst (snd ?bad) = (None, False, Some ''Error executing script: boom'')"
    by (simp add: prod_eq_iff)
  ultimately show ?thesis using ok(1) bad(1) by (simp add: prod_eq_iff)
qed

section \<open>The value a script finds for a quoted variable\<close>

text \<open>
  C3. For the variable \<^verbatim>\<open>NAME=O'Brien\<close> \<^verbatim>\<open>Configure\<close> returns no error and stores the value
  with its quote replaced by five characters. \<^verbatim>\<open>PostProcess\<close> hands that entry to every
  process as it is, with no quotes around the value and no shell to read them: the value
  the script finds for \<^verbatim>\<open>NAME\<close> is the replaced text, which is not the original one.
\<close>

theorem quoted_value_observed:
  "Configure every_file None quoted_config =
     (blank_config\<lparr>InlineShebang := ''/bin/sh -e'', Script := ''a.sh'', Scripts := Some [''a.sh''],
        Vars := Some [''NAME=O'' @ escaped_quote @ ''Brien'']\<rparr>, None)
   \<and> Vars quoted_config = Some [''NAME=O'' @ [squote] @ ''Brien'']
   \<and> map (\<lambda>env. getenv_last env ''NAME'')
        (environments (trace (snd (snd (PostProcess (machine [])
           (fst (Configure every_file None quoted_config)) two_files 0))))) =
       [Some (''O'' @ escaped_quote @ ''Brien''), Some (''O'' @ escaped_quote @ ''Brien'')]
   \<and> ''O'' @ escaped_quote @ ''Brien'' \<noteq> ''O'' @ [squote] @ ''Brien''"
proof -
  have vars: "Vars quoted_config = Some [''NAME=O'' @ [squote] @ ''Brien'']"
    by (simp add: quoted_config_def blank_config_def)
  have found: "getenv_last
        [''PATH=/bin'', ''NAME=ambient'',
         ''PACKER_BUILD_NAME='' @ [squote] @ ''vm'' @ [squote],
         ''PACKER_BUILDER_TYPE='' @ [squote] @ ''qemu'' @ [squote],
         ''NAME=O'' @ escaped_quote @ ''Brien''] ''NAME'' = Some (''O'' @ escaped_quote @ ''Brien'')"
    by code_simp
  have envs: "environments (trace (snd (snd (PostProcess (machine [])
           (fst (Configure every_file None quoted_config)) two_files 0)))) =
      [[''PATH=/bin'', ''NAME=ambient'',
         ''PACKER_BUILD_NAME='' @ [squote] @ ''vm'' @ [squote],
         ''PACKER_BUILDER_TYPE='' @ [squote] @ ''qemu'' @ [squote],
         ''NAME=O'' @ escaped_quote @ ''Brien''],
       [''PATH=/bin'', ''NAME=ambient'',
         ''PACKER_BUILD_NAME='' @ [squote] @ ''vm'' @ [squote],
         ''PACKER_BUILDER_TYPE='' @ [squote] @ ''qemu'' @ [squote],
         ''NAME=O'' @ escaped_quote @ ''Brien'']]"
    by (simp add: configured_quoted machine_eval two_files_def blank_config_def before_run_def
        after_run_def envVars_of_def)
  have differ: "''O'' @ escaped_quote @ ''Brien'' \<noteq> ''O'' @ [squote] @ ''Brien''"
    by (simp add: escaped_quote_def)
  from configured_quoted vars envs found differ show ?thesis by simp
qed

end
